theory Spec2Isabelle
  imports Main
begin

section \<open>The node model\<close>

text \<open>
  The nodes the parser builds and the evaluator walks. The node classes themselves
  (lib/nodes) are not among the sources; the constructors below carry the fields that
  lib/visitor/evaluator.js and the parser read and write:
  \<^item> \<open>Ident name val rest\<close>: \<open>val = Null\<close> is a lookup, any other \<open>val\<close> an assignment;
    \<open>rest\<close> marks a rest parameter;
  \<^item> \<open>Expression isList nodes\<close>;
  \<^item> \<open>BinOp op left right\<close>: the pseudo operator \<open>is defined\<close> has no right operand;
  \<^item> \<open>Property segments expr literal name\<close>: \<open>name\<close> is set by the evaluator only;
  \<^item> \<open>Block scope nodes\<close>, \<open>Root nodes\<close>, \<open>Group selectors block\<close>;
  \<^item> \<open>If cond block elses negate\<close>, \<open>Each val key expr block\<close>;
  \<^item> \<open>Function name params block\<close> is a user function, \<open>Native name\<close> the
    wrapper \<open>new nodes.Function(name, fn)\<close> around a host function or built-in;
  \<^item> \<open>Call name args\<close>, \<open>Return expr\<close> (a bare \<open>return\<close> holds \<open>Null\<close>);
  \<^item> \<open>Undefined\<close> is JavaScript's \<open>undefined\<close>, which a visit can return and an
    array of nodes can hold; reading a property of it throws a TypeError.
  Numbers are JavaScript floats in the source; the model keeps the integers.
\<close>

datatype node =
    Undefined
  | Null
  | Boolean bool
  | Unit int string
  | String string
  | Literal string
  | Color int int int int
  | Ident string node bool
  | Expression bool "node list"
  | BinOp string node "node option"
  | UnaryOp string node
  | Ternary node node node
  | Property "node list" node bool "string option"
  | Block bool "node list"
  | Root "node list"
  | Group "node list" node
  | Selector string
  | If node node "node list" bool
  | Each string "string option" node node
  | Function string "node list" node
  | Native string
  | Params "node list"
  | Call string node
  | Return node
  | Import string
  | Charset node
  | Media string node
  | Page "node option" node
  | Keyframes node "node list"

text \<open>The property \<open>nodeName\<close>; of \<open>Undefined\<close> the model says \<open>undefined\<close>, and
  every caller that would throw there tests for it first.\<close>

fun nodeName :: "node \<Rightarrow> string" where
  "nodeName Undefined = ''undefined''"
| "nodeName Null = ''null''"
| "nodeName (Boolean b) = ''boolean''"
| "nodeName (Unit v s) = ''unit''"
| "nodeName (String s) = ''string''"
| "nodeName (Literal s) = ''literal''"
| "nodeName (Color r g b a) = ''color''"
| "nodeName (Ident n v r) = ''ident''"
| "nodeName (Expression l ns) = ''expression''"
| "nodeName (BinOp op l r) = ''binop''"
| "nodeName (UnaryOp op e) = ''unaryop''"
| "nodeName (Ternary c t f) = ''ternary''"
| "nodeName (Property segs e l n) = ''property''"
| "nodeName (Block sc ns) = ''block''"
| "nodeName (Root ns) = ''root''"
| "nodeName (Group sels b) = ''group''"
| "nodeName (Selector s) = ''selector''"
| "nodeName (If c b es n) = ''if''"
| "nodeName (Each v k e b) = ''each''"
| "nodeName (Function n ps b) = ''function''"
| "nodeName (Native n) = ''function''"
| "nodeName (Params ps) = ''params''"
| "nodeName (Call n a) = ''call''"
| "nodeName (Return e) = ''return''"
| "nodeName (Import p) = ''import''"
| "nodeName (Charset s) = ''charset''"
| "nodeName (Media q b) = ''media''"
| "nodeName (Page s b) = ''page''"
| "nodeName (Keyframes n fs) = ''keyframes''"

datatype error =
    Thrown node
  | RangeError string
  | TypeError string
  | Error string
  | OutOfFuel

text \<open>
  \<open>Thrown\<close> is a Return node thrown by \<open>visitReturn\<close>; \<open>RangeError\<close>, \<open>TypeError\<close>
  and \<open>Error\<close> are the JavaScript errors of those classes; \<open>OutOfFuel\<close> is the
  model's own: the evaluation did not end within the fuel it was given.
\<close>

section \<open>Collaborators that are not among the sources\<close>

text \<open>
  Modelled from the spec: the shared node behaviour \<open>first\<close> (lib/nodes is missing). The
  spec lists it among the behaviours every node has and calls a primary "the innermost
  expression atom, what operators operate on after reduction": a node other than an
  expression is its own first; an expression answers with the first of its first node,
  and with \<open>Null\<close> when it has none.
\<close>

fun first :: "node \<Rightarrow> node" where
  "first n =
     (case n of
        Expression l ns \<Rightarrow>
          (case ns of [] \<Rightarrow> Null | m # _ \<Rightarrow> if m = Undefined then Null else first m)
      | _ \<Rightarrow> n)"

text \<open>
  Modelled from the spec: \<open>utils.unwrap\<close> (lib/utils is missing), "unwrap singleton
  expressions": an expression whose only node is an expression stands for that inner
  expression. An expression around a single node of another kind stays as it is, which is
  what \<open>visitCall\<close> relies on when it reads \<open>fn.nodes[0]\<close> of a looked-up expression and
  \<open>visitEach\<close> when it reads \<open>expr.nodes\<close> after unwrapping.
\<close>

fun unwrap :: "node \<Rightarrow> node" where
  "unwrap expr =
     (case expr of
        Expression l ns \<Rightarrow>
          (case ns of
             [m] \<Rightarrow> (case m of Expression l' ms \<Rightarrow> unwrap m | _ \<Rightarrow> expr)
           | _ \<Rightarrow> expr)
      | _ \<Rightarrow> expr)"

text \<open>Modelled from the spec: \<open>isEmpty\<close> of lib/nodes, true of an expression without
  nodes; other nodes do not have the property, which reads as false.\<close>

definition isEmpty :: "node \<Rightarrow> bool" where
  "isEmpty n = (case n of Expression l ns \<Rightarrow> ns = [] | _ \<Rightarrow> False)"

text \<open>Modelled from the spec: \<open>clone\<close> of lib/nodes, a deep copy. Nodes are values here,
  so the copy is the node.\<close>

definition clone :: "node \<Rightarrow> node" where
  "clone n = n"

text \<open>
  Modelled from the spec: Scope and Stack (lib/stack/scope.js and lib/stack/index.js are
  missing; lib/stack/frame.js is a source). A scope maps a name to what is bound to it.
  \<open>visitCall\<close> tests the node a lookup returns for being a function and \<open>visitIdent\<close>
  visits it as the value, so \<open>add\<close> files the identifier's \<open>val\<close> under its \<open>name\<close>. A
  frame owns one scope and refers to a block; the stack is the sequence of frames,
  innermost last, and \<open>lookup\<close> walks it from the innermost frame outwards and returns
  the first hit. A block is referred to by its position in the evaluator's list of live
  block objects (see \<open>block_obj\<close>).
\<close>

record frame =
  scope :: "string \<rightharpoonup> node"
  block :: nat

definition Frame :: "nat \<Rightarrow> frame" where
  "Frame b = \<lparr>scope = Map.empty, block = b\<rparr>"

definition scope_lookup :: "(string \<rightharpoonup> node) \<Rightarrow> string \<Rightarrow> node option" where
  "scope_lookup sc name = (case sc name of Some Undefined \<Rightarrow> None | r \<Rightarrow> r)"

fun stack_lookup :: "frame list \<Rightarrow> string \<Rightarrow> node option" where
  "stack_lookup [] name = None"
| "stack_lookup (f # fs) name =
     (case stack_lookup fs name of
        Some v \<Rightarrow> Some v
      | None \<Rightarrow> scope_lookup (scope f) name)"

text \<open>
  The host: what the evaluator calls and the sources do not hold. \<open>user_functions\<close> is
  \<open>this.functions\<close> (\<open>functions\<close> is a keyword of Isabelle), the
  option of that name, \<open>bifs\<close> the built-in table (lib/functions); a native function
  says whether it wants raw arguments and maps its arguments to a node or throws.
  \<open>coerce\<close>, \<open>operate\<close> and \<open>toBoolean\<close> are the node behaviours of those names
  (\<open>left.coerce(right)\<close>, \<open>left.operate(op, right)\<close>, \<open>node.toBoolean()\<close> read as the test
  against \<open>nodes.true\<close>). \<open>resolve\<close> stands for \<open>utils.lookup\<close>, \<open>fs.readFileSync\<close> and
  \<open>stylus.parse\<close> together: given the search paths and a path it answers \<open>None\<close> when no
  file is found, else the directory of the file and either the statements the parser
  appends to the root or the error it throws.
\<close>

record native =
  raw :: bool
  fn :: "node list \<Rightarrow> error + node"

record host =
  user_functions :: "string \<Rightarrow> native option"
  bifs :: "string \<Rightarrow> native option"
  coerce :: "node \<Rightarrow> node \<Rightarrow> error + node"
  operate :: "string \<Rightarrow> node \<Rightarrow> node \<Rightarrow> error + node"
  toBoolean :: "node \<Rightarrow> bool"
  resolve :: "string list \<Rightarrow> string \<Rightarrow> (string \<times> (error + node list)) option"

section \<open>The evaluator's state\<close>

text \<open>
  Frames, \<open>this.group\<close> and the loops of \<open>visitBlock\<close> and \<open>visitRoot\<close> share block
  objects and change them in place: \<open>invoke\<close> replaces \<open>block.nodes\<close> of the current
  frame's block, \<open>mixin\<close> pushes onto a block, \<open>visitEach\<close> sets \<open>block.scope\<close>. The
  blocks being iterated, and the argument blocks of the calls under way, are therefore
  objects in a store, \<open>blocks\<close>, addressed by position; a block object holds its
  \<open>nodeName\<close>, \<open>nodes\<close>, \<open>index\<close> and \<open>scope\<close>. \<open>bgen\<close> counts how often \<open>nodes\<close> was
  replaced by a new array: the assignment \<open>block.nodes[i] = this.visit(...)\<close> takes the
  array before the visit runs, so after a replacement it writes into the old array.

  \<open>stack\<close> is \<open>this.stack\<close> (innermost frame last), \<open>calling\<close> is \<open>this.calling\<close> (newest
  name last), \<open>return\<close> is \<open>this.return\<close>, \<open>group\<close> refers to the block of \<open>this.group\<close>.
  The root is block object 0.
\<close>

record block_obj =
  bname :: string
  bnodes :: "node list"
  bindex :: "nat option"
  bscope :: bool
  bgen :: nat

record evaluator =
  stack :: "frame list"
  blocks :: "block_obj list"
  calling :: "string list"
  return :: bool
  group :: "nat option"
  rootIndex :: "nat option"
  paths :: "string list"
  importPath :: "string option"

type_synonym result = "(error + node) \<times> evaluator"
type_synonym visitor = "node \<Rightarrow> evaluator \<Rightarrow> result"

definition andThen :: "result \<Rightarrow> (node \<Rightarrow> evaluator \<Rightarrow> result) \<Rightarrow> result" where
  "andThen r k = (case r of (Inl e, st) \<Rightarrow> (Inl e, st) | (Inr v, st) \<Rightarrow> k v st)"

text \<open>\<open>this.stack.currentFrame\<close>, \<open>scope.add\<close> on the frame at a position, \<open>push\<close> and
  \<open>pop\<close>.\<close>

definition currentFrame :: "evaluator \<Rightarrow> frame option" where
  "currentFrame st = (if stack st = [] then None else Some (last (stack st)))"

definition scope_add :: "nat \<Rightarrow> string \<Rightarrow> node \<Rightarrow> evaluator \<Rightarrow> evaluator" where
  "scope_add d name val st =
     (if d < length (stack st)
      then st\<lparr>stack := (stack st)[d := (stack st ! d)\<lparr>scope := (scope (stack st ! d))(name \<mapsto> val)\<rparr>]\<rparr>
      else st)"

definition push :: "frame \<Rightarrow> evaluator \<Rightarrow> evaluator" where
  "push f st = st\<lparr>stack := stack st @ [f]\<rparr>"

definition pop :: "evaluator \<Rightarrow> evaluator" where
  "pop st = st\<lparr>stack := butlast (stack st)\<rparr>"

text \<open>A new block object; its reference is the length of the store before.\<close>

definition alloc :: "string \<Rightarrow> bool \<Rightarrow> node list \<Rightarrow> evaluator \<Rightarrow> evaluator" where
  "alloc nm sc ns st =
     st\<lparr>blocks := blocks st @ [\<lparr>bname = nm, bnodes = ns, bindex = None, bscope = sc, bgen = 0\<rparr>]\<rparr>"

definition release :: "nat \<Rightarrow> evaluator \<Rightarrow> evaluator" where
  "release r st = st\<lparr>blocks := take r (blocks st)\<rparr>"

definition update_block :: "nat \<Rightarrow> (block_obj \<Rightarrow> block_obj) \<Rightarrow> evaluator \<Rightarrow> evaluator" where
  "update_block r f st =
     (if r < length (blocks st) then st\<lparr>blocks := (blocks st)[r := f (blocks st ! r)]\<rparr> else st)"

text \<open>\<open>block.nodes[i] = v\<close> where the array was taken when \<open>bgen\<close> was \<open>g\<close>.\<close>

definition store :: "nat \<Rightarrow> nat \<Rightarrow> nat \<Rightarrow> node \<Rightarrow> evaluator \<Rightarrow> evaluator" where
  "store r i g v st =
     update_block r (\<lambda>b. if bgen b = g then b\<lparr>bnodes := (bnodes b)[i := v]\<rparr> else b) st"

section \<open>Evaluator.prototype.mixin\<close>

text \<open>
  \<^verbatim>\<open>
  Evaluator.prototype.mixin = function(nodes, dest){
    var node, len = nodes.length;
    for (var i = 0; i < len; ++i) {
      switch ((node = nodes[i]).nodeName) {
        case 'return': return;
        case 'block':  this.mixin(node.nodes, dest); break;
        default:       dest.push(node);
      }
    }
  };
  \<close>
  \<open>dest\<close> is the list pushed onto; the result is that list after the pushes.
\<close>

fun mixin :: "node list \<Rightarrow> node list \<Rightarrow> error + node list" where
  "mixin [] dest = Inr dest"
| "mixin (n # rest) dest =
     (case n of
        Undefined \<Rightarrow> Inl (TypeError ''nodeName of undefined'')
      | Return e \<Rightarrow> Inr dest
      | Block sc ns \<Rightarrow>
          (case mixin ns dest of Inl e \<Rightarrow> Inl e | Inr dest' \<Rightarrow> mixin rest dest')
      | _ \<Rightarrow> mixin rest (dest @ [n]))"

section \<open>Evaluator.prototype.eval\<close>

text \<open>
  \<^verbatim>\<open>
  Evaluator.prototype.eval = function(nodes){
    var node, len = nodes.length;
    for (var i = 0; i < len; ++i) {
      switch ((node = nodes[i]).nodeName) {
        case 'return': return node.expr;
        case 'block':  return this.eval(node.nodes);
      }
    }
    return node;
  };
  \<close>
  The loop variable \<open>node\<close> is the second argument of \<open>eval_loop\<close>; it starts as
  \<open>Undefined\<close>, which is what the function returns on an empty list.
\<close>

fun eval_loop :: "node list \<Rightarrow> node \<Rightarrow> error + node" where
  "eval_loop [] node = Inr node"
| "eval_loop (n # rest) node =
     (case n of
        Undefined \<Rightarrow> Inl (TypeError ''nodeName of undefined'')
      | Return e \<Rightarrow> Inr e
      | Block sc ns \<Rightarrow> eval_loop ns Undefined
      | _ \<Rightarrow> eval_loop rest n)"

definition eval :: "node list \<Rightarrow> error + node" where
  "eval nodes = eval_loop nodes Undefined"

text \<open>
  The result as the specification words it: the expression of the first Return statement
  found, also inside a nested block that holds one; the last statement when there is no
  Return anywhere.
\<close>

fun spec_firstReturn :: "node list \<Rightarrow> node option" where
  "spec_firstReturn [] = None"
| "spec_firstReturn (n # rest) =
     (case n of
        Return e \<Rightarrow> Some e
      | Block sc ns \<Rightarrow>
          (case spec_firstReturn ns of Some e \<Rightarrow> Some e | None \<Rightarrow> spec_firstReturn rest)
      | _ \<Rightarrow> spec_firstReturn rest)"

definition spec_eval :: "node list \<Rightarrow> node" where
  "spec_eval nodes =
     (case spec_firstReturn nodes of Some e \<Rightarrow> e | None \<Rightarrow> last nodes)"

definition plain :: "node \<Rightarrow> bool" where
  "plain n \<longleftrightarrow> n \<noteq> Undefined \<and> nodeName n \<noteq> ''return'' \<and> nodeName n \<noteq> ''block''"

section \<open>Lookup\<close>

text \<open>
  \<^verbatim>\<open>
  Evaluator.prototype.lookupFunction = function(name){
    var fn = this.functions[name] || bifs[name];
    if (fn) return new nodes.Function(name, fn);
  };
  Evaluator.prototype.lookup = function(name){
    var val;
    if (val = this.stack.lookup(name)) { return utils.unwrap(val); }
    else { return this.lookupFunction(name); }
  };
  \<close>
\<close>

definition nativeOf :: "host \<Rightarrow> string \<Rightarrow> native option" where
  "nativeOf h name =
     (case user_functions h name of Some f \<Rightarrow> Some f | None \<Rightarrow> bifs h name)"

definition lookupFunction :: "host \<Rightarrow> string \<Rightarrow> node option" where
  "lookupFunction h name =
     (case nativeOf h name of Some f \<Rightarrow> Some (Native name) | None \<Rightarrow> None)"

definition lookup :: "host \<Rightarrow> evaluator \<Rightarrow> string \<Rightarrow> node option" where
  "lookup h st name =
     (case stack_lookup (stack st) name of
        Some val \<Rightarrow> Some (unwrap val)
      | None \<Rightarrow> lookupFunction h name)"

text \<open>
  \<^verbatim>\<open>
  Evaluator.prototype.isDefined = function(node){
    if (node instanceof nodes.Ident) {
      return nodes.Boolean(this.lookup(node.name));
    } else {
      throw new Error('invalid "is defined" check on non-variable ' + node);
    }
  };
  \<close>
\<close>

definition isDefined :: "host \<Rightarrow> node \<Rightarrow> evaluator \<Rightarrow> result" where
  "isDefined h node st =
     (case node of
        Ident name val rest \<Rightarrow> (Inr (Boolean (lookup h st name \<noteq> None)), st)
      | _ \<Rightarrow> (Inl (Error ''invalid is defined check on non-variable''), st))"

section \<open>Invocation\<close>

text \<open>The property \<open>nodes\<close>, of the nodes that have one (\<open>None\<close> is \<open>undefined\<close>).\<close>

definition nodesOf :: "node \<Rightarrow> node list option" where
  "nodesOf n =
     (case n of
        Block sc ns \<Rightarrow> Some ns
      | Root ns \<Rightarrow> Some ns
      | Expression l ns \<Rightarrow> Some ns
      | Params ns \<Rightarrow> Some ns
      | _ \<Rightarrow> None)"

text \<open>
  \<^verbatim>\<open>
  Evaluator.prototype.invoke = function(body){
    var self = this
      , block = this.stack.currentFrame.block;
    // Return
    if (this.return) {
      return this.eval(body.nodes);
    // Mixin
    } else {
      var head = block.nodes.slice(0, block.index)
        , tail = block.nodes.slice(block.index + 1, block.nodes.length);
      this.mixin(body.nodes, head);
      block.nodes = head.concat(tail);
      return nodes.null;
    }
  };
  \<close>
  With \<open>block.index\<close> undefined both slices are the whole array. A frame whose block
  object is no longer in the store cannot arise in the source; the model answers with an
  error of its own there.
\<close>

definition invoke :: "node \<Rightarrow> evaluator \<Rightarrow> result" where
  "invoke body st =
     (case currentFrame st of
        None \<Rightarrow> (Inl (TypeError ''block of undefined''), st)
      | Some f \<Rightarrow>
          (case nodesOf body of
             None \<Rightarrow> (Inl (TypeError ''length of undefined''), st)
           | Some ns \<Rightarrow>
               if return st then
                 (case eval ns of Inl e \<Rightarrow> (Inl e, st) | Inr v \<Rightarrow> (Inr v, st))
               else if block f < length (blocks st) then
                 (let b = blocks st ! block f;
                      head = (case bindex b of None \<Rightarrow> bnodes b | Some i \<Rightarrow> take i (bnodes b));
                      tail = (case bindex b of None \<Rightarrow> bnodes b | Some i \<Rightarrow> drop (Suc i) (bnodes b))
                  in case mixin ns head of
                       Inl e \<Rightarrow> (Inl e, st)
                     | Inr head' \<Rightarrow>
                         (Inr Null,
                          update_block (block f)
                            (\<lambda>b. b\<lparr>bnodes := head' @ tail, bgen := Suc (bgen b)\<rparr>) st))
               else (Inl (Error ''unmodelled: block object not in the store''), st)))"

text \<open>
  \<^verbatim>\<open>
  Evaluator.prototype.invokeBuiltin = function(fn, args){
    if (fn.raw) {
      args = args.nodes;
    } else {
      args = args.nodes.map(function(node){ return node.first; });
    }
    var body = fn.apply(this, args);
    var expr = new nodes.Expression;
    expr.push(body);
    body = expr;
    return this.invoke(body);
  };
  \<close>
\<close>

definition invokeBuiltin :: "native \<Rightarrow> node \<Rightarrow> evaluator \<Rightarrow> result" where
  "invokeBuiltin f args st =
     (case nodesOf args of
        None \<Rightarrow> (Inl (TypeError ''map of undefined''), st)
      | Some ns \<Rightarrow>
          if \<not> raw f \<and> Undefined \<in> set ns then (Inl (TypeError ''first of undefined''), st)
          else
            (case fn f (if raw f then ns else map first ns) of
               Inl e \<Rightarrow> (Inl e, st)
             | Inr body \<Rightarrow> invoke (Expression False [body]) st))"

text \<open>
  The parameter loop of \<open>invokeFunction\<close>:
  \<^verbatim>\<open>
  fn.params.nodes.forEach(function(node, i){
    // rest param support
    if (node.rest) {
      node.val = new nodes.Expression;
      for (var len = args.nodes.length; i < len; ++i) {
        node.val.push(args.nodes[i]);
      }
    // argument default support
    } else {
      var arg = args.nodes[i];
      var val = arg && !arg.isEmpty
        ? args.nodes[i]
        : node.val;
      node = node.clone();
      node.val = val;
      // required argument not satisfied
      if (node.val instanceof nodes.Null) {
        throw new Error('argument ' + node + ' required for ' + fn);
      }
    }
    scope.add(node);
  });
  \<close>
  \<open>bindParams\<close> runs it from parameter \<open>i\<close> on over the scope of the new frame and gives
  the scope back, with the error that stopped it, if any. \<open>fnString\<close> is the function as
  the message prints it. The parser makes every parameter an identifier; for another
  node the model answers with an error of its own.

  Modelled from the spec: \<open>toString\<close> of lib/nodes (missing), which the concatenation in
  the message calls: an identifier prints as its name, a user function as its name
  followed by its parameters in parentheses, separated by a comma and a space, as in
  \<open>argument x required for f(x, y)\<close>.
\<close>

definition identString :: "node \<Rightarrow> string" where
  "identString n = (case n of Ident name val rest \<Rightarrow> name | _ \<Rightarrow> [])"

fun commaJoin :: "string list \<Rightarrow> string" where
  "commaJoin [] = []"
| "commaJoin [x] = x"
| "commaJoin (x # y # zs) = x @ '', '' @ commaJoin (y # zs)"

definition functionString :: "string \<Rightarrow> node list \<Rightarrow> string" where
  "functionString fname params = fname @ ''('' @ commaJoin (map identString params) @ '')''"

fun bindParams ::
  "node list \<Rightarrow> nat \<Rightarrow> node \<Rightarrow> string \<Rightarrow> (string \<rightharpoonup> node) \<Rightarrow> (string \<rightharpoonup> node) \<times> error option"
where
  "bindParams [] i args fnString sc = (sc, None)"
| "bindParams (p # ps) i args fnString sc =
     (case p of
        Ident name val rest \<Rightarrow>
          (case nodesOf args of
             None \<Rightarrow> (sc, Some (TypeError ''nodes of args is undefined''))
           | Some as \<Rightarrow>
               if rest then
                 bindParams ps (Suc i) args fnString (sc(name \<mapsto> Expression False (drop i as)))
               else
                 (let arg = (if i < length as then as ! i else Undefined);
                      v = (if arg \<noteq> Undefined \<and> \<not> isEmpty arg then arg else val)
                  in if v = Null
                     then (sc, Some (Error (''argument '' @ name @ '' required for '' @ fnString)))
                     else bindParams ps (Suc i) args fnString (sc(name \<mapsto> v))))
      | _ \<Rightarrow> (sc, Some (TypeError ''unmodelled: parameter is no identifier'')))"

text \<open>
  \<^verbatim>\<open>
  Evaluator.prototype.invokeFunction = function(fn, args){
    var body = fn.block.clone();
    var mixinBlock = this.stack.currentFrame.block;
    var block = new nodes.Block(body.parent);
    body.parent = block;
    this.stack.push(new Frame(block));
    var scope = this.stack.currentFrame.scope;
    scope.add(new nodes.Ident('arguments', args));
    scope.add(new nodes.Ident('mixin', this.return
      ? nodes.false
      : new nodes.String(mixinBlock.nodeName)));
    fn.params.nodes.forEach(...);
    body = this.visit(body);
    this.stack.pop();
    return this.invoke(body);
  };
  \<close>
  The new frame is pushed with the scope that the additions leave in it. The parser gives
  every function a block as its body (\<open>fn.block = this.block(fn)\<close>) and the evaluator
  builds no user function itself; for a function around another node the model answers
  with an error of its own.
\<close>

definition invokeFunction ::
  "visitor \<Rightarrow> string \<Rightarrow> node list \<Rightarrow> node \<Rightarrow> node \<Rightarrow> evaluator \<Rightarrow> result"
where
  "invokeFunction visit fname params fblock args st =
     (if fblock = Undefined then (Inl (TypeError ''clone of undefined''), st)
      else if nodeName fblock \<noteq> ''block''
      then (Inl (Error ''unmodelled: the body of the function is no block''), st)
      else case currentFrame st of
        None \<Rightarrow> (Inl (TypeError ''block of undefined''), st)
      | Some cf \<Rightarrow>
          if length (blocks st) \<le> block cf
          then (Inl (Error ''unmodelled: block object not in the store''), st)
          else
            (let body = clone fblock;
                 mixinBlock = blocks st ! block cf;
                 r = length (blocks st);
                 frame = Frame r;
                 sc0 = (scope frame)
                         (''arguments'' \<mapsto> args,
                          ''mixin'' \<mapsto> (if return st then Boolean False
                                        else String (bname mixinBlock)));
                 bound = bindParams params 0 args (functionString fname params) sc0;
                 st3 = push (frame\<lparr>scope := fst bound\<rparr>) (alloc ''block'' True [] st)
             in case snd bound of
                  Some e \<Rightarrow> (Inl e, st3)
                | None \<Rightarrow>
                    (case visit body st3 of
                       (Inl e, st4) \<Rightarrow> (Inl e, st4)
                     | (Inr body', st4) \<Rightarrow> invoke body' (release r (pop st4)))))"

text \<open>
  \<^verbatim>\<open>
  Evaluator.prototype.literalCall = function(call){
    call.args = this.visit(call.args);
    return call;
  };
  \<close>
\<close>

definition literalCall :: "visitor \<Rightarrow> string \<Rightarrow> node \<Rightarrow> evaluator \<Rightarrow> result" where
  "literalCall visit name args st =
     andThen (visit args st) (\<lambda>args' st'. (Inr (Call name args'), st'))"

section \<open>The visit methods\<close>

text \<open>
  Each method takes \<open>visit\<close>, the evaluator's own \<open>this.visit\<close>, as its first argument;
  \<open>visit\<close> below ties the knot. \<open>visitGroup\<close>: \<open>this.group = group\<close> makes the group's
  block, the next block object to enter the store, the target of the selector mixin of
  \<open>visitIf\<close>. The parser gives every group a block; for a group around another node the
  model answers with an error of its own.
  \<^verbatim>\<open>
  Evaluator.prototype.visitGroup = function(group){
    this.group = group;
    group.block = this.visit(group.block);
    this.group = null;
    return group;
  };
  Evaluator.prototype.visitReturn = function(ret){
    ret.expr = this.visit(ret.expr);
    throw ret;
  };
  Evaluator.prototype.visitMedia = function(media){
    media.block = this.visit(media.block);
    return media;
  };
  Evaluator.prototype.visitKeyframes = function(keyframes){
    keyframes.name = this.visit(keyframes.name).first.name;
    return keyframes;
  };
  \<close>
\<close>

definition visitGroup :: "visitor \<Rightarrow> node list \<Rightarrow> node \<Rightarrow> evaluator \<Rightarrow> result" where
  "visitGroup visit sels b st =
     (if nodeName b \<noteq> ''block''
      then (Inl (Error ''unmodelled: the block of the group is no block''), st)
      else andThen (visit b (st\<lparr>group := Some (length (blocks st))\<rparr>))
             (\<lambda>b' st'. (Inr (Group sels b'), st'\<lparr>group := None\<rparr>)))"

definition visitReturn :: "visitor \<Rightarrow> node \<Rightarrow> evaluator \<Rightarrow> result" where
  "visitReturn visit e st =
     andThen (visit e st) (\<lambda>e' st'. (Inl (Thrown (Return e')), st'))"

definition visitMedia :: "visitor \<Rightarrow> string \<Rightarrow> node \<Rightarrow> evaluator \<Rightarrow> result" where
  "visitMedia visit q b st =
     andThen (visit b st) (\<lambda>b' st'. (Inr (Media q b'), st'))"

text \<open>The property \<open>name\<close> of a node, as a literal; \<open>Undefined\<close> where there is none.\<close>

definition nameOf :: "node \<Rightarrow> node" where
  "nameOf n =
     (case n of
        Ident s v r \<Rightarrow> Literal s
      | Function s ps b \<Rightarrow> Literal s
      | Native s \<Rightarrow> Literal s
      | Call s a \<Rightarrow> Literal s
      | Property segs e l nm \<Rightarrow> (case nm of Some s \<Rightarrow> Literal s | None \<Rightarrow> Undefined)
      | Keyframes nm fs \<Rightarrow> nm
      | _ \<Rightarrow> Undefined)"

definition visitKeyframes :: "visitor \<Rightarrow> node \<Rightarrow> node list \<Rightarrow> evaluator \<Rightarrow> result" where
  "visitKeyframes visit nm fs st =
     andThen (visit nm st)
       (\<lambda>v st'. if v = Undefined then (Inl (TypeError ''first of undefined''), st')
                 else (Inr (Keyframes (nameOf (first v)) fs), st'))"

text \<open>
  \<^verbatim>\<open>
  Evaluator.prototype.visitExpression = function(expr){
    for (var i = 0, len = expr.nodes.length; i < len; ++i) {
      expr.nodes[i] = this.visit(expr.nodes[i]);
    }
    return expr;
  };
  \<close>
\<close>

fun visitNodes :: "visitor \<Rightarrow> node list \<Rightarrow> evaluator \<Rightarrow> (error + node list) \<times> evaluator" where
  "visitNodes visit [] st = (Inr [], st)"
| "visitNodes visit (n # ns) st =
     (case visit n st of
        (Inl e, st1) \<Rightarrow> (Inl e, st1)
      | (Inr v, st1) \<Rightarrow>
          (case visitNodes visit ns st1 of
             (Inl e, st2) \<Rightarrow> (Inl e, st2)
           | (Inr vs, st2) \<Rightarrow> (Inr (v # vs), st2)))"

definition visitExpression :: "visitor \<Rightarrow> bool \<Rightarrow> node list \<Rightarrow> evaluator \<Rightarrow> result" where
  "visitExpression visit l ns st =
     (case visitNodes visit ns st of
        (Inl e, st1) \<Rightarrow> (Inl e, st1)
      | (Inr vs, st1) \<Rightarrow> (Inr (Expression l vs), st1))"

text \<open>
  \<^verbatim>\<open>
  Evaluator.prototype.visitCall = function(call){
    var fn = this.lookup(call.name)
      , ret;
    // Variable function
    if (fn && 'expression' == fn.nodeName) {
      fn = fn.nodes[0];
    }
    // Not a function? try user-defined or built-ins
    if (fn && 'function' != fn.nodeName) {
      fn = this.lookupFunction(call.name);
    }
    // Undefined function, render literal css
    if (!fn || fn.nodeName != 'function') return this.literalCall(call);
    this.calling.push(call.name);
    // Massive stack
    if (this.calling.length > 200) {
      throw new RangeError('Maximum call stack size exceeded');
    }
    // First node in expression
    if (fn instanceof nodes.Expression) fn = fn.first;
    // Evaluate arguments
    var _ = this.return;
    this.return = true;
    var args = this.visit(call.args);
    this.return = _;
    // Built-in
    if (fn.fn) {
      ret = this.invokeBuiltin(fn.fn, args);
    // User-defined
    } else if (fn instanceof nodes.Function) {
      ret = this.invokeFunction(fn, args);
    }
    this.calling.pop();
    return ret;
  };
  \<close>
  \<open>resolveCall\<close> is the first three statements: the function the name stands for, if
  any. (Past the third test \<open>fn\<close> is a function node, so \<open>fn instanceof nodes.Expression\<close>
  is false.)
\<close>

definition resolveCall :: "host \<Rightarrow> evaluator \<Rightarrow> string \<Rightarrow> node option" where
  "resolveCall h st name =
     (let fn0 = lookup h st name;
          fn1 = (case fn0 of
                   Some (Expression l ns) \<Rightarrow>
                     (case ns of [] \<Rightarrow> None | n # _ \<Rightarrow> if n = Undefined then None else Some n)
                 | _ \<Rightarrow> fn0);
          fn2 = (case fn1 of
                   Some f \<Rightarrow> if nodeName f \<noteq> ''function'' then lookupFunction h name else Some f
                 | None \<Rightarrow> None)
      in case fn2 of
           Some f \<Rightarrow> if nodeName f \<noteq> ''function'' then None else Some f
         | None \<Rightarrow> None)"

definition invokeResolved :: "visitor \<Rightarrow> host \<Rightarrow> node \<Rightarrow> node \<Rightarrow> evaluator \<Rightarrow> result" where
  "invokeResolved visit h f args st =
     (case f of
        Native nm \<Rightarrow>
          (case nativeOf h nm of
             Some nf \<Rightarrow> invokeBuiltin nf args st
           | None \<Rightarrow> (Inl (TypeError ''clone of undefined''), st))
      | Function nm ps b \<Rightarrow> invokeFunction visit nm ps b args st
      | _ \<Rightarrow> (Inr Undefined, st))"

definition visitCall :: "visitor \<Rightarrow> host \<Rightarrow> string \<Rightarrow> node \<Rightarrow> evaluator \<Rightarrow> result" where
  "visitCall visit h name args st =
     (case resolveCall h st name of
        None \<Rightarrow> literalCall visit name args st
      | Some f \<Rightarrow>
          (let st1 = st\<lparr>calling := calling st @ [name]\<rparr>
           in if 200 < length (calling st1)
              then (Inl (RangeError ''Maximum call stack size exceeded''), st1)
              else
                andThen (visit args (st1\<lparr>return := True\<rparr>))
                  (\<lambda>args' st2.
                     andThen (invokeResolved visit h f args' (st2\<lparr>return := return st\<rparr>))
                       (\<lambda>ret st3. (Inr ret, st3\<lparr>calling := butlast (calling st3)\<rparr>)))))"

text \<open>
  \<^verbatim>\<open>
  Evaluator.prototype.visitIdent = function(ident){
    // Lookup
    if (nodes.null == ident.val) {
      var val = this.lookup(ident.name);
      return val ? this.visit(val) : ident;
    // Assign
    } else {
      var _ = this.return;
      this.return = true;
      ident.val = this.visit(ident.val);
      this.return = _;
      this.stack.currentFrame.scope.add(ident);
      return ident.val;
    }
  };
  \<close>
  A value in a scope is a tree here: that the visit of a looked-up expression rewrites
  the bound expression object in place is not represented.
\<close>

definition visitIdent :: "visitor \<Rightarrow> host \<Rightarrow> string \<Rightarrow> node \<Rightarrow> bool \<Rightarrow> evaluator \<Rightarrow> result" where
  "visitIdent visit h name val rest st =
     (if val = Null then
        (case lookup h st name of
           Some v \<Rightarrow> visit v st
         | None \<Rightarrow> (Inr (Ident name val rest), st))
      else
        andThen (visit val (st\<lparr>return := True\<rparr>))
          (\<lambda>v st1.
             let st2 = st1\<lparr>return := return st\<rparr>
             in if stack st2 = [] then (Inl (TypeError ''scope of undefined''), st2)
                else (Inr v, scope_add (length (stack st2) - 1) name v st2)))"

text \<open>
  \<^verbatim>\<open>
  Evaluator.prototype.visitBinOp = function(binop){
    // Special-case "is defined" pseudo binop
    if ('is defined' == binop.op) return this.isDefined(binop.left);
    var _ = this.return;
    this.return = true;
    // Visit operands
    var op = binop.op
      , ident = 'ident' == binop.left.nodeName
      , left = this.visit(binop.left)
      , right = this.visit(binop.right);
    this.return = _;
    // First node in expression
    if (!~['[]', 'in'].indexOf(op)) {
      left = left.first;
      right = right.first;
    }
    // Coercion
    switch (op) {
      case '[]':
      case 'in':
      case '||':
      case '&&':
      case 'is a':
        break;
      default:
        // Special-case '-' against ident
        if ('-' == op
          && 'ident' == left.nodeName
          && 'unit' == right.nodeName) {
          var expr = new nodes.Expression;
          right.val = -right.val;
          expr.push(left);
          expr.push(right);
          return expr;
        }
        // Attempt coercion
        try {
          right = left.coerce(right);
        } catch (err) {
          // Disgregard coercion issues
          // and simply return false
          if ('==' == op || '!=' == op) {
            return nodes.false;
          } else {
            throw err;
          }
        }
    }
    // Operate
    return this.visit(left.operate(op, right));
  };
  \<close>
\<close>

definition operateAndVisit ::
  "visitor \<Rightarrow> host \<Rightarrow> string \<Rightarrow> node \<Rightarrow> node \<Rightarrow> evaluator \<Rightarrow> result"
where
  "operateAndVisit visit h op left right st =
     (if left = Undefined then (Inl (TypeError ''operate of undefined''), st)
      else case operate h op left right of
             Inl e \<Rightarrow> (Inl e, st)
           | Inr v \<Rightarrow> visit v st)"

definition negateUnit :: "node \<Rightarrow> node" where
  "negateUnit n = (case n of Unit v s \<Rightarrow> Unit (- v) s | _ \<Rightarrow> n)"

definition visitBinOp ::
  "visitor \<Rightarrow> host \<Rightarrow> string \<Rightarrow> node \<Rightarrow> node option \<Rightarrow> evaluator \<Rightarrow> result"
where
  "visitBinOp visit h op bleft bright st =
     (if op = ''is defined'' then isDefined h bleft st
      else
        andThen (visit bleft (st\<lparr>return := True\<rparr>))
          (\<lambda>left st1.
             andThen (visit (case bright of None \<Rightarrow> Undefined | Some rn \<Rightarrow> rn) st1)
               (\<lambda>right st2.
                  let st3 = st2\<lparr>return := return st\<rparr>
                  in if op = ''[]'' \<or> op = ''in'' then operateAndVisit visit h op left right st3
                     else if left = Undefined \<or> right = Undefined
                     then (Inl (TypeError ''first of undefined''), st3)
                     else
                       (let left1 = first left; right1 = first right
                        in if op = ''||'' \<or> op = ''&&'' \<or> op = ''is a''
                           then operateAndVisit visit h op left1 right1 st3
                           else if op = ''-'' \<and> nodeName left1 = ''ident''
                                   \<and> nodeName right1 = ''unit''
                           then (Inr (Expression False [left1, negateUnit right1]), st3)
                           else
                             (case coerce h left1 right1 of
                                Inl err \<Rightarrow>
                                  if op = ''=='' \<or> op = ''!=''
                                  then (Inr (Boolean False), st3)
                                  else (Inl err, st3)
                              | Inr right2 \<Rightarrow> operateAndVisit visit h op left1 right2 st3)))))"

text \<open>
  \<^verbatim>\<open>
  Evaluator.prototype.visitUnaryOp = function(unary){
    var op = unary.op
      , node = this.visit(unary.expr).first;
    if ('!' != op) utils.assertType(node, nodes.Unit);
    switch (op) {
      case '-': node.val = -node.val; break;
      case '+': node.val = +node.val; break;
      case '~': node.val = ~node.val; break;
      case '!': return node.toBoolean().negate();
    }
    return node;
  };
  Evaluator.prototype.visitTernary = function(ternary){
    var ok = this.visit(ternary.cond).toBoolean();
    return nodes.true == ok
      ? this.visit(ternary.trueExpr)
      : this.visit(ternary.falseExpr);
  };
  \<close>
  \<open>utils.assertType\<close> throws unless the node is of the class. JavaScript's \<open>~\<close> works on
  the operand wrapped to a signed 32-bit integer (\<open>toInt32\<close>).
\<close>

definition toInt32 :: "int \<Rightarrow> int" where
  "toInt32 x = (x + 2147483648) mod 4294967296 - 2147483648"

definition visitUnaryOp :: "visitor \<Rightarrow> host \<Rightarrow> string \<Rightarrow> node \<Rightarrow> evaluator \<Rightarrow> result" where
  "visitUnaryOp visit h op e st =
     andThen (visit e st)
       (\<lambda>v st1.
          if v = Undefined then (Inl (TypeError ''first of undefined''), st1)
          else
            (let node = first v
             in if op = ''!'' then (Inr (Boolean (\<not> toBoolean h node)), st1)
                else case node of
                       Unit x s \<Rightarrow>
                         (Inr (if op = ''-'' then Unit (- x) s
                               else if op = ''~'' then Unit (- toInt32 x - 1) s
                               else node), st1)
                     | _ \<Rightarrow> (Inl (Error ''expected Unit''), st1)))"

definition visitTernary :: "visitor \<Rightarrow> host \<Rightarrow> node \<Rightarrow> node \<Rightarrow> node \<Rightarrow> evaluator \<Rightarrow> result" where
  "visitTernary visit h cond trueExpr falseExpr st =
     andThen (visit cond st)
       (\<lambda>v st1.
          if v = Undefined then (Inl (TypeError ''toBoolean of undefined''), st1)
          else if toBoolean h v then visit trueExpr st1
          else visit falseExpr st1)"

text \<open>
  \<^verbatim>\<open>
  Evaluator.prototype.interpolate = function(node){
    var self = this;
    return node.segments.map(function(node){
      function toString(node) {
        switch (node.nodeName) {
          case 'function':
          case 'ident':
            return node.name;
          case 'literal':
          case 'string':
          case 'unit':
            return node.val;
          case 'expression':
            var _ = self.return;
            self.return = true;
            var ret = toString(self.visit(node).first);
            self.return = _;
            return ret;
        }
      }
      return toString(node);
    }).join('');
  };
  \<close>
  \<open>segmentString\<close> is \<open>toString\<close> on a node that is no expression (the first of a node
  never is one); what it returns as \<open>undefined\<close> joins as the empty string. The visit of
  an expression segment rewrites that expression in place, so \<open>interpolate\<close> gives the
  segments back with the name.
\<close>

fun showNat :: "nat \<Rightarrow> string" where
  "showNat n =
     (if n < 10 then [''0123456789'' ! n]
      else showNat (n div 10) @ [''0123456789'' ! (n mod 10)])"

definition showInt :: "int \<Rightarrow> string" where
  "showInt i = (if i < 0 then ''-'' @ showNat (nat (- i)) else showNat (nat i))"

definition segmentString :: "node \<Rightarrow> string" where
  "segmentString n =
     (case n of
        Function s ps b \<Rightarrow> s
      | Native s \<Rightarrow> s
      | Ident s v r \<Rightarrow> s
      | Literal s \<Rightarrow> s
      | String s \<Rightarrow> s
      | Unit v s \<Rightarrow> showInt v
      | _ \<Rightarrow> [])"

fun interpolate ::
  "visitor \<Rightarrow> node list \<Rightarrow> evaluator \<Rightarrow> (error + string \<times> node list) \<times> evaluator"
where
  "interpolate visit [] st = (Inr ([], []), st)"
| "interpolate visit (seg # segs) st =
     (if seg = Undefined then (Inl (TypeError ''nodeName of undefined''), st)
      else if nodeName seg = ''expression'' then
        (case visit seg (st\<lparr>return := True\<rparr>) of
           (Inl e, st1) \<Rightarrow> (Inl e, st1)
         | (Inr v, st1) \<Rightarrow>
             if v = Undefined then (Inl (TypeError ''first of undefined''), st1)
             else
               (case interpolate visit segs (st1\<lparr>return := return st\<rparr>) of
                  (Inl e, st2) \<Rightarrow> (Inl e, st2)
                | (Inr (name, segs'), st2) \<Rightarrow>
                    (Inr (segmentString (first v) @ name, v # segs'), st2)))
      else
        (case interpolate visit segs st of
           (Inl e, st2) \<Rightarrow> (Inl e, st2)
         | (Inr (name, segs'), st2) \<Rightarrow> (Inr (segmentString seg @ name, seg # segs'), st2)))"

text \<open>
  \<^verbatim>\<open>
  Evaluator.prototype.visitProperty = function(prop){
    var name = this.interpolate(prop)
      , fn = this.lookup(name)
      , call = fn instanceof nodes.Function
      , literal = ~this.calling.indexOf(name);
    // Function of the same name
    if (call && !literal && !prop.literal) {
      this.calling.push(name);
      var ret = this.visit(new nodes.Call(name, prop.expr));
      this.calling.pop();
      return ret;
    // Regular property
    } else {
      var _ = this.return;
      this.return = true;
      prop.expr = this.visit(prop.expr);
      prop.name = name;
      prop.literal = true;
      this.return = _;
      return prop;
    }
  };
  \<close>
\<close>

definition isFunction :: "node option \<Rightarrow> bool" where
  "isFunction f =
     (case f of Some (Function s ps b) \<Rightarrow> True | Some (Native s) \<Rightarrow> True | _ \<Rightarrow> False)"

definition visitProperty ::
  "visitor \<Rightarrow> host \<Rightarrow> node list \<Rightarrow> node \<Rightarrow> bool \<Rightarrow> string option \<Rightarrow> evaluator \<Rightarrow> result"
where
  "visitProperty visit h segments expr pliteral pname st =
     (case interpolate visit segments st of
        (Inl e, st1) \<Rightarrow> (Inl e, st1)
      | (Inr (name, segs), st1) \<Rightarrow>
          (let f = lookup h st1 name;
               call = isFunction f;
               literal = (name \<in> set (calling st1))
           in if call \<and> \<not> literal \<and> \<not> pliteral then
                andThen (visit (Call name expr) (st1\<lparr>calling := calling st1 @ [name]\<rparr>))
                  (\<lambda>ret st2. (Inr ret, st2\<lparr>calling := butlast (calling st2)\<rparr>))
              else
                andThen (visit expr (st1\<lparr>return := True\<rparr>))
                  (\<lambda>expr' st2.
                     (Inr (Property segs expr' True (Some name)),
                      st2\<lparr>return := return st1\<rparr>))))"

text \<open>
  \<^verbatim>\<open>
  Evaluator.prototype.visitEach = function(each){
    var body
      , eachBlock = each.block
      , expr = utils.unwrap(this.visit(utils.unwrap(each.expr)))
      , len = expr.nodes.length
      , val = new nodes.Ident(each.val)
      , key = new nodes.Ident(each.key || '__index__')
      , scope = this.stack.currentFrame.scope
      , block = this.stack.currentFrame.block;
    eachBlock.scope = false;
    for (var i = 0; i < len; ++i) {
      val.val = expr.nodes[i];
      key.val = new nodes.Unit(i);
      scope.add(val);
      scope.add(key);
      body = this.visit(eachBlock.clone());
      this.mixin(body.nodes, block);
    }
    block.scope = true;
    return nodes.null;
  };
  \<close>
  \<open>d\<close> is the position of the frame that was current when the loop began, \<open>r\<close> its block.
\<close>

definition unscoped :: "node \<Rightarrow> node" where
  "unscoped n = (case n of Block sc ns \<Rightarrow> Block False ns | _ \<Rightarrow> n)"

definition mixinInto :: "node list \<Rightarrow> nat \<Rightarrow> evaluator \<Rightarrow> error option \<times> evaluator" where
  "mixinInto ns r st =
     (if r < length (blocks st) then
        (case mixin ns (bnodes (blocks st ! r)) of
           Inl e \<Rightarrow> (Some e, st)
         | Inr dest \<Rightarrow> (None, update_block r (\<lambda>b. b\<lparr>bnodes := dest\<rparr>) st))
      else (Some (Error ''unmodelled: block object not in the store''), st))"

fun each_loop ::
  "visitor \<Rightarrow> string \<Rightarrow> string \<Rightarrow> node \<Rightarrow> nat \<Rightarrow> nat \<Rightarrow> node list \<Rightarrow> nat \<Rightarrow> evaluator
     \<Rightarrow> error option \<times> evaluator"
where
  "each_loop visit val key eachBlock d r [] i st = (None, st)"
| "each_loop visit val key eachBlock d r (n # ns) i st =
     (case visit (clone eachBlock)
             (scope_add d key (Unit (int i) []) (scope_add d val n st)) of
        (Inl e, st1) \<Rightarrow> (Some e, st1)
      | (Inr body, st1) \<Rightarrow>
          (case nodesOf body of
             None \<Rightarrow> (Some (TypeError ''length of undefined''), st1)
           | Some bns \<Rightarrow>
               (case mixinInto bns r st1 of
                  (Some e, st2) \<Rightarrow> (Some e, st2)
                | (None, st2) \<Rightarrow> each_loop visit val key eachBlock d r ns (Suc i) st2)))"

text \<open>\<open>each.key || '__index__'\<close>\<close>

definition keyName :: "string option \<Rightarrow> string" where
  "keyName key = (case key of None \<Rightarrow> ''__index__'' | Some k \<Rightarrow> if k = [] then ''__index__'' else k)"

definition visitEach ::
  "visitor \<Rightarrow> string \<Rightarrow> string option \<Rightarrow> node \<Rightarrow> node \<Rightarrow> evaluator \<Rightarrow> result"
where
  "visitEach visit val key expr eachBlock st =
     (if expr = Undefined then (Inl (TypeError ''nodeName of undefined''), st)
      else
        andThen (visit (unwrap expr) st)
          (\<lambda>v st1.
             if v = Undefined then (Inl (TypeError ''nodeName of undefined''), st1)
             else case nodesOf (unwrap v) of
               None \<Rightarrow> (Inl (TypeError ''length of undefined''), st1)
             | Some ns \<Rightarrow>
                 (case currentFrame st1 of
                    None \<Rightarrow> (Inl (TypeError ''scope of undefined''), st1)
                  | Some cf \<Rightarrow>
                      if eachBlock = Undefined
                      then (Inl (TypeError ''cannot set scope of undefined''), st1)
                      else
                        (case each_loop visit val (keyName key) (unscoped eachBlock)
                                (length (stack st1) - 1) (block cf) ns 0 st1 of
                           (Some e, st2) \<Rightarrow> (Inl e, st2)
                         | (None, st2) \<Rightarrow>
                             (Inr Null, update_block (block cf) (\<lambda>b. b\<lparr>bscope := True\<rparr>) st2)))))"

text \<open>
  \<^verbatim>\<open>
  Evaluator.prototype.visitIf = function(node){
    var ret
      , _ = this.return
      , group = this.group
      , negate = node.negate;
    this.return = true;
    var ok = this.visit(node.cond).first.toBoolean();
    this.return = _;
    // Evaluate body
    if (negate) {
      // unless
      if (nodes.false == ok) {
        ret = this.visit(node.block);
      }
    } else {
      // if
      if (nodes.true == ok) {
        ret = this.visit(node.block);
      // else
      } else if (node.elses.length) {
        var elses = node.elses
          , len = elses.length;
        for (var i = 0; i < len; ++i) {
          // else if
          if (elses[i].cond) {
            if (nodes.true == this.visit(elses[i].cond).first.toBoolean()) {
              ret = this.visit(elses[i].block);
              break;
            }
          // else
          } else {
            ret = this.visit(elses[i]);
          }
        }
      }
    }
    // Selector mixin
    if (group && ret && 'block' == ret.nodeName && !this.return) {
      this.mixin(ret.nodes, group.block);
      return nodes.null;
    }
    return ret || nodes.null;
  };
  \<close>
  An entry of \<open>elses\<close> with a \<open>cond\<close> is an If node.
\<close>

fun elses_loop :: "visitor \<Rightarrow> host \<Rightarrow> node list \<Rightarrow> node \<Rightarrow> evaluator \<Rightarrow> result" where
  "elses_loop visit h [] ret st = (Inr ret, st)"
| "elses_loop visit h (e # es) ret st =
     (case e of
        Undefined \<Rightarrow> (Inl (TypeError ''cond of undefined''), st)
      | If c b es' ng \<Rightarrow>
          (case visit c st of
             (Inl err, st1) \<Rightarrow> (Inl err, st1)
           | (Inr v, st1) \<Rightarrow>
               if v = Undefined then (Inl (TypeError ''first of undefined''), st1)
               else if toBoolean h (first v) then visit b st1
               else elses_loop visit h es ret st1)
      | _ \<Rightarrow>
          (case visit e st of
             (Inl err, st1) \<Rightarrow> (Inl err, st1)
           | (Inr v, st1) \<Rightarrow> elses_loop visit h es v st1))"

definition visitIf ::
  "visitor \<Rightarrow> host \<Rightarrow> node \<Rightarrow> node \<Rightarrow> node list \<Rightarrow> bool \<Rightarrow> evaluator \<Rightarrow> result"
where
  "visitIf visit h cond blk elses negate st =
     andThen (visit cond (st\<lparr>return := True\<rparr>))
       (\<lambda>c st1.
          if c = Undefined then (Inl (TypeError ''first of undefined''), st1)
          else
            (let ok = toBoolean h (first c);
                 st2 = st1\<lparr>return := return st\<rparr>
             in andThen
                  (if negate then (if \<not> ok then visit blk st2 else (Inr Undefined, st2))
                   else if ok then visit blk st2
                   else elses_loop visit h elses Undefined st2)
                  (\<lambda>ret st3.
                     case (group st, ret) of
                       (Some g, Block sc ns) \<Rightarrow>
                         if \<not> return st3 then
                           (case mixinInto ns g st3 of
                              (Some e, st4) \<Rightarrow> (Inl e, st4)
                            | (None, st4) \<Rightarrow> (Inr Null, st4))
                         else (Inr ret, st3)
                     | _ \<Rightarrow> (Inr (if ret = Undefined then Null else ret), st3))))"

text \<open>
  \<^verbatim>\<open>
  Evaluator.prototype.visitImport = function(import){
    var found
      , root = this.root
      , i = this.rootIndex
      , stylus = require('../stylus')
      , path = import.path
      , relative = this.importPath;
    // Literal
    if (/\.css$/.test(path)) return import;
    path += '.styl';
    // Lookup
    if (relative) this.paths.push(relative);
    found = utils.lookup(path, this.paths, this.filename);
    if (relative) this.paths.pop();
    // Throw if import failed
    if (!found) throw new Error('failed to locate @import file ' + path);
    this.importPath = dirname(found);
    // Parse the file
    var str = fs.readFileSync(found, 'utf8')
      , rest = root.nodes.splice(++i, root.nodes.length);
    stylus.parse(str, { filename: found, root: root });
    rest.forEach(function(node){ root.push(node); });
    return nodes.null;
  };
  \<close>
\<close>

definition visitImport :: "host \<Rightarrow> string \<Rightarrow> evaluator \<Rightarrow> result" where
  "visitImport h path st =
     (if 4 \<le> length path \<and> drop (length path - 4) path = ''.css'' then (Inr (Import path), st)
      else
        (let path' = path @ ''.styl'';
             ps = (case importPath st of Some rel \<Rightarrow> paths st @ [rel] | None \<Rightarrow> paths st)
         in case resolve h ps path' of
              None \<Rightarrow> (Inl (Error (''failed to locate @import file '' @ path')), st)
            | Some (dir, parsed) \<Rightarrow>
                (let st1 = st\<lparr>importPath := Some dir\<rparr>;
                     i = (case rootIndex st of None \<Rightarrow> 0 | Some k \<Rightarrow> Suc k)
                 in if blocks st1 = [] then (Inl (TypeError ''nodes of undefined''), st1)
                    else case parsed of
                      Inl e \<Rightarrow> (Inl e, update_block 0 (\<lambda>b. b\<lparr>bnodes := take i (bnodes b)\<rparr>) st1)
                    | Inr stmts \<Rightarrow>
                        (Inr Null,
                         update_block 0
                           (\<lambda>b. b\<lparr>bnodes := take i (bnodes b) @ stmts @ drop i (bnodes b)\<rparr>) st1))))"

text \<open>
  \<^verbatim>\<open>
  Evaluator.prototype.visitRoot = function(block){
    for (var i = 0; i < block.nodes.length; ++i) {
      block.index = this.rootIndex = i;
      block.nodes[i] = this.visit(block.nodes[i]);
    }
    return block;
  };
  Evaluator.prototype.visitBlock = function(block){
    if (block.scope) this.stack.push(new Frame(block));
    for (var i = 0; i < block.nodes.length; ++i) {
      block.index = i;
      try {
        block.nodes[i] = this.visit(block.nodes[i]);
      } catch (err) {
        if (err instanceof nodes.Return) {
          block.nodes[i] = err;
          break;
        } else {
          throw err;
        }
      }
    }
    if (block.scope) this.stack.pop();
    return block;
  };
  \<close>
  The loops run on the block object \<open>r\<close> of the store, from index \<open>i\<close> on, and re-read
  \<open>block.nodes.length\<close> at every turn; nothing bounds the number of turns, so each turn
  takes one unit of fuel.
\<close>

text \<open>\<open>err instanceof nodes.Return\<close>: the Return node that was thrown, if it is one.\<close>

definition thrownReturn :: "error \<Rightarrow> node option" where
  "thrownReturn err =
     (case err of
        Thrown x \<Rightarrow> if nodeName x = ''return'' then Some x else None
      | _ \<Rightarrow> None)"

primrec root_loop :: "nat \<Rightarrow> visitor \<Rightarrow> nat \<Rightarrow> nat \<Rightarrow> evaluator \<Rightarrow> error option \<times> evaluator" where
  "root_loop 0 visit r i st = (Some OutOfFuel, st)"
| "root_loop (Suc k) visit r i st =
     (if r < length (blocks st) \<and> i < length (bnodes (blocks st ! r)) then
        (let st1 = (update_block r (\<lambda>b. b\<lparr>bindex := Some i\<rparr>) st)\<lparr>rootIndex := Some i\<rparr>;
             g = bgen (blocks st1 ! r)
         in case visit (bnodes (blocks st1 ! r) ! i) st1 of
              (Inl e, st2) \<Rightarrow> (Some e, st2)
            | (Inr v, st2) \<Rightarrow> root_loop k visit r (Suc i) (store r i g v st2))
      else (None, st))"

primrec block_loop :: "nat \<Rightarrow> visitor \<Rightarrow> nat \<Rightarrow> nat \<Rightarrow> evaluator \<Rightarrow> error option \<times> evaluator" where
  "block_loop 0 visit r i st = (Some OutOfFuel, st)"
| "block_loop (Suc k) visit r i st =
     (if r < length (blocks st) \<and> i < length (bnodes (blocks st ! r)) then
        (let st1 = update_block r (\<lambda>b. b\<lparr>bindex := Some i\<rparr>) st;
             g = bgen (blocks st1 ! r)
         in case visit (bnodes (blocks st1 ! r) ! i) st1 of
              (Inl err, st2) \<Rightarrow>
                (case thrownReturn err of
                   Some ret \<Rightarrow> (None, store r i g ret st2)
                 | None \<Rightarrow> (Some err, st2))
            | (Inr v, st2) \<Rightarrow> block_loop k visit r (Suc i) (store r i g v st2))
      else (None, st))"

definition visitRoot :: "visitor \<Rightarrow> nat \<Rightarrow> node list \<Rightarrow> evaluator \<Rightarrow> result" where
  "visitRoot visit fuel ns st =
     (let r = length (blocks st)
      in case root_loop fuel visit r 0 (alloc ''root'' True ns st) of
           (Some e, st1) \<Rightarrow> (Inl e, st1)
         | (None, st1) \<Rightarrow>
             if r < length (blocks st1)
             then (Inr (Root (bnodes (blocks st1 ! r))), release r st1)
             else (Inl (Error ''unmodelled: block object not in the store''), st1))"

definition visitBlock :: "visitor \<Rightarrow> nat \<Rightarrow> bool \<Rightarrow> node list \<Rightarrow> evaluator \<Rightarrow> result" where
  "visitBlock visit fuel sc ns st =
     (let r = length (blocks st);
          st1 = alloc ''block'' sc ns st;
          st2 = (if sc then push (Frame r) st1 else st1)
      in case block_loop fuel visit r 0 st2 of
           (Some e, st3) \<Rightarrow> (Inl e, st3)
         | (None, st3) \<Rightarrow>
             if r < length (blocks st3) then
               (let b = blocks st3 ! r;
                    st4 = (if bscope b then pop st3 else st3)
                in (Inr (Block (bscope b) (bnodes b)), release r st4))
             else (Inl (Error ''unmodelled: block object not in the store''), st3))"

section \<open>Evaluator.prototype.visit\<close>

text \<open>
  The dispatch of lib/visitor (\<open>this['visit' + node.constructor.name]\<close>, the node itself
  when the evaluator has no such method). \<open>visitCharset\<close> and \<open>visitFunction\<close> return their
  node (the latter after warnings on the console). The first argument after the host is
  the fuel: every nested visit and every turn of a block loop takes one unit.
\<close>

primrec visit :: "host \<Rightarrow> nat \<Rightarrow> node \<Rightarrow> evaluator \<Rightarrow> result" where
  "visit h 0 node st = (Inl OutOfFuel, st)"
| "visit h (Suc n) node st =
     (case node of
        Undefined \<Rightarrow> (Inl (TypeError ''constructor of undefined''), st)
      | Group sels b \<Rightarrow> visitGroup (visit h n) sels b st
      | Return e \<Rightarrow> visitReturn (visit h n) e st
      | Media q b \<Rightarrow> visitMedia (visit h n) q b st
      | Keyframes nm fs \<Rightarrow> visitKeyframes (visit h n) nm fs st
      | Each v k e b \<Rightarrow> visitEach (visit h n) v k e b st
      | Call nm args \<Rightarrow> visitCall (visit h n) h nm args st
      | Ident nm v r \<Rightarrow> visitIdent (visit h n) h nm v r st
      | BinOp op l r \<Rightarrow> visitBinOp (visit h n) h op l r st
      | UnaryOp op e \<Rightarrow> visitUnaryOp (visit h n) h op e st
      | Ternary c t f \<Rightarrow> visitTernary (visit h n) h c t f st
      | Expression l ns \<Rightarrow> visitExpression (visit h n) l ns st
      | Property segs e l nm \<Rightarrow> visitProperty (visit h n) h segs e l nm st
      | Root ns \<Rightarrow> visitRoot (visit h n) n ns st
      | Block sc ns \<Rightarrow> visitBlock (visit h n) n sc ns st
      | If c b es ng \<Rightarrow> visitIf (visit h n) h c b es ng st
      | Import p \<Rightarrow> visitImport h p st
      | _ \<Rightarrow> (Inr node, st))"

section \<open>Notions of the claims and an example host\<close>

text \<open>
  The function a name is bound to on the stack, as \<open>visitCall\<close> finds it: the value of
  the innermost binding, unwrapped, when it is a function, or its first node when it is
  an expression that starts with a function.
\<close>

definition boundFunction :: "evaluator \<Rightarrow> string \<Rightarrow> node option" where
  "boundFunction st name =
     (case stack_lookup (stack st) name of
        None \<Rightarrow> None
      | Some val \<Rightarrow>
          (case unwrap val of
             Expression l ns \<Rightarrow>
               (case ns of [] \<Rightarrow> None | n # _ \<Rightarrow> if nodeName n = ''function'' then Some n else None)
           | f \<Rightarrow> if nodeName f = ''function'' then Some f else None))"

text \<open>
  A small host for the examples: no user functions, one built-in \<open>unit\<close> that returns its
  first argument, units coerce to units and strings to strings, \<open>+\<close> and \<open>==\<close> on units.
  \<open>example_state\<close> is the evaluator after construction on an empty root, without the
  colours in the global scope.
\<close>

definition example_host :: host where
  "example_host =
     \<lparr>user_functions = (\<lambda>n. None),
      bifs = (\<lambda>n. if n = ''unit''
                   then Some \<lparr>raw = False, fn = (\<lambda>args. Inr (case args of [] \<Rightarrow> Null | a # _ \<Rightarrow> a))\<rparr>
                   else None),
      coerce = (\<lambda>l r. case (l, r) of
                         (Unit a s, Unit b t) \<Rightarrow> Inr r
                       | (String a, String b) \<Rightarrow> Inr r
                       | _ \<Rightarrow> Inl (Error ''cannot coerce'')),
      operate = (\<lambda>op l r. case (l, r) of
                            (Unit a s, Unit b t) \<Rightarrow>
                              (if op = ''+'' then Inr (Unit (a + b) s)
                               else if op = ''=='' then Inr (Boolean (a = b))
                               else Inl (Error ''cannot operate''))
                          | _ \<Rightarrow> Inl (Error ''cannot operate'')),
      toBoolean = (\<lambda>n. case n of Boolean b \<Rightarrow> b | Null \<Rightarrow> False | _ \<Rightarrow> True),
      resolve = (\<lambda>ps p. None)\<rparr>"

definition example_state :: evaluator where
  "example_state =
     \<lparr>stack = [Frame 0],
      blocks = [\<lparr>bname = ''root'', bnodes = [], bindex = None, bscope = True, bgen = 0\<rparr>],
      calling = [], return = False, group = None, rootIndex = None, paths = [],
      importPath = None\<rparr>"

text \<open>The function \<open>foo(n)\<close> with the body \<open>foo: n\<close>, and the evaluator inside a call of it.\<close>

definition example_foo :: node where
  "example_foo =
     Function ''foo'' [Ident ''n'' Null False]
       (Block True [Property [Ident ''foo'' Null False] (Expression False [Ident ''n'' Null False])
          False None])"

definition example_in_foo :: evaluator where
  "example_in_foo =
     \<lparr>stack = [\<lparr>scope = [''foo'' \<mapsto> example_foo], block = 0\<rparr>],
      blocks = [\<lparr>bname = ''root'', bnodes = [], bindex = None, bscope = True, bgen = 0\<rparr>],
      calling = [''foo''], return = False, group = None, rootIndex = None, paths = [],
      importPath = None\<rparr>"

text \<open>
  Notions of the parameter loop. An argument is \<open>missing\<close> at a position when there is
  none there or when it is an empty expression (\<open>arg && !arg.isEmpty\<close> fails).
  \<open>resulting\<close> is the value a parameter at a position ends up with: a rest parameter the
  expression of the arguments from that position on, another parameter its default when
  the argument is missing and the argument otherwise. \<open>example_params\<close> are the
  parameters of \<open>f(x, y = 1)\<close>, \<open>example_rest_params\<close> those of \<open>g(x, rest...)\<close>.
\<close>

definition missing :: "node list \<Rightarrow> nat \<Rightarrow> bool" where
  "missing as i \<longleftrightarrow> length as \<le> i \<or> as ! i = Undefined \<or> isEmpty (as ! i)"

definition resulting :: "node list \<Rightarrow> nat \<Rightarrow> node \<Rightarrow> node" where
  "resulting as i p =
     (case p of
        Ident name val rest \<Rightarrow>
          if rest then Expression False (drop i as)
          else if missing as i then val else as ! i
      | _ \<Rightarrow> Undefined)"

definition identParam :: "node \<Rightarrow> bool" where
  "identParam p = (case p of Ident name val rest \<Rightarrow> True | _ \<Rightarrow> False)"

definition example_params :: "node list" where
  "example_params = [Ident ''x'' Null False, Ident ''y'' (Expression False [Unit 1 []]) False]"

definition example_rest_params :: "node list" where
  "example_rest_params = [Ident ''x'' Null False, Ident ''rest'' Null True]"

text \<open>The example evaluator with \<open>k\<close> calls of \<open>bar\<close> under way.\<close>

definition example_deep :: "nat \<Rightarrow> evaluator" where
  "example_deep k = example_in_foo\<lparr>calling := replicate k ''bar''\<rparr>"

text \<open>The function \<open>pick(n)\<close> with the body \<open>if n\<close>, indented \<open>7\<close>, then \<open>return n\<close>.\<close>

definition example_pick :: node where
  "example_pick =
     Function ''pick'' [Ident ''n'' Null False]
       (Block True
          [If (Expression False [Ident ''n'' Null False]) (Block False [Expression False [Unit 7 []]]) []
             False,
           Return (Expression False [Ident ''n'' Null False])])"

text \<open>
  Notions of the frame stack. \<open>framed\<close>: every frame refers to a live block object whose
  scope flag is set; the evaluator makes frames for the root, for the blocks with the
  flag set and for the fresh block of a function call (the flag of the root, which the
  evaluator does not read, is set in the model). \<open>keeps st st'\<close>: \<open>st'\<close> has the frames
  of \<open>st\<close>, as far as their blocks go, and the block objects of \<open>st\<close> with their scope
  flags. An outcome \<open>completes\<close> when it is a value or a thrown Return. A visitor is
  \<open>sound\<close> when it keeps the frames of a framed state whenever it completes, and throws
  no Return out of a block. \<open>example_block\<close> is the body \<open>x = 1px\<close>, \<open>return x\<close>,
  \<open>y = 2px\<close>.
\<close>

definition framed :: "evaluator \<Rightarrow> bool" where
  "framed st \<longleftrightarrow>
     (\<forall>f\<in>set (stack st). block f < length (blocks st) \<and> bscope (blocks st ! block f))"

definition keeps :: "evaluator \<Rightarrow> evaluator \<Rightarrow> bool" where
  "keeps st st' \<longleftrightarrow>
     map block (stack st') = map block (stack st)
     \<and> length (blocks st) \<le> length (blocks st')
     \<and> (\<forall>i<length (blocks st). bscope (blocks st' ! i) = bscope (blocks st ! i))"

definition completes :: "error + node \<Rightarrow> bool" where
  "completes r = (case r of Inr v \<Rightarrow> True | Inl e \<Rightarrow> thrownReturn e \<noteq> None)"

definition sound :: "visitor \<Rightarrow> bool" where
  "sound v \<longleftrightarrow>
     (\<forall>node st r st'. framed st \<longrightarrow> v node st = (r, st') \<longrightarrow> completes r \<longrightarrow> keeps st st')
     \<and> (\<forall>sc ns st e st'. v (Block sc ns) st = (Inl e, st') \<longrightarrow> thrownReturn e = None)"

definition example_block :: "node list" where
  "example_block =
     [Ident ''x'' (Expression False [Unit 1 ''px'']) False,
      Return (Expression False [Ident ''x'' Null False]),
      Ident ''y'' (Expression False [Unit 2 ''px'']) False]"

text \<open>
  Notions of the literal properties. A node is \<open>settled\<close> when it is a value: null, a
  boolean, a unit, a string, a literal, a colour, or an expression of settled nodes.
  \<open>segmentsName\<close> is the name the segments of a property spell. A property is \<open>reduced\<close>
  when its literal flag is set, its expression is settled, so are its segments that are
  expressions, and its name is the one its segments spell. \<open>example_bound\<close> is the
  example evaluator with \<open>x\<close> bound to \<open>5px\<close>, \<open>example_property\<close> the property \<open>w: x\<close> as
  its evaluation leaves it while \<open>x\<close> is unbound, \<open>example_each\<close> the block
  \<open>for n in 1 2\<close>, indented \<open>w: x\<close>, then \<open>x = 5px\<close>.
\<close>

fun settled :: "node \<Rightarrow> bool" where
  "settled (Expression l ns) = (\<forall>m\<in>set ns. settled m)"
| "settled Null = True"
| "settled (Boolean b) = True"
| "settled (Unit v s) = True"
| "settled (String s) = True"
| "settled (Literal s) = True"
| "settled (Color r g b a) = True"
| "settled _ = False"

definition segmentsName :: "node list \<Rightarrow> string" where
  "segmentsName segs = concat (map (\<lambda>s. segmentString (first s)) segs)"

definition reduced :: "node list \<Rightarrow> node \<Rightarrow> bool \<Rightarrow> string option \<Rightarrow> bool" where
  "reduced segs e lit nm \<longleftrightarrow>
     lit \<and> (\<forall>s\<in>set segs. s \<noteq> Undefined \<and> (nodeName s = ''expression'' \<longrightarrow> settled s))
     \<and> settled e \<and> nm = Some (segmentsName segs)"

definition example_bound :: evaluator where
  "example_bound =
     example_state\<lparr>stack := [\<lparr>scope = [''x'' \<mapsto> Expression False [Unit 5 ''px'']], block = 0\<rparr>]\<rparr>"

definition example_property :: node where
  "example_property =
     Property [Ident ''w'' Null False] (Expression False [Ident ''x'' Null False]) True (Some ''w'')"

definition example_each :: node where
  "example_each =
     Block True
       [Each ''n'' None (Expression False [Unit 1 [], Unit 2 []])
          (Block True
             [Property [Ident ''w'' Null False] (Expression False [Ident ''x'' Null False])
                False None]),
        Ident ''x'' (Expression False [Unit 5 ''px'']) False]"

section \<open>Properties of eval and of invoke in return mode\<close>

lemma eval_loop_plain:
  "list_all plain pre \<Longrightarrow> eval_loop (pre @ rest) node = eval_loop rest (if pre = [] then node else last pre)"
proof (induction pre arbitrary: node)
  case Nil
  then show ?case by simp
next
  case (Cons n pre)
  then have "eval_loop ((n # pre) @ rest) node = eval_loop (pre @ rest) n"
    by (cases n) (simp_all add: plain_def)
  with Cons show ?case by simp
qed

lemma eval_scan:
  assumes "list_all plain pre"
  shows "eval (pre @ Return e # rest) = Inr e"
    and "eval (pre @ Block sc ns # rest') = eval ns"
    and "pre \<noteq> [] \<Longrightarrow> eval pre = Inr (last pre)"
  using eval_loop_plain [OF assms, of "Return e # rest" Undefined]
    eval_loop_plain [OF assms, of "Block sc ns # rest'" Undefined]
    eval_loop_plain [OF assms, of "[]" Undefined]
  by (simp_all add: eval_def)

lemma invoke_return_mode:
  assumes "return st" and "currentFrame st = Some f"
  shows "invoke (Block sc ns) st = (case eval ns of Inl e \<Rightarrow> (Inl e, st) | Inr v \<Rightarrow> (Inr v, st))"
  using assms by (simp add: invoke_def nodesOf_def)

text \<open>
  C2 (as amended). In return mode (\<open>this.return\<close> is true) \<open>invoke\<close> hands the statement
  list of the evaluated body to \<open>eval\<close>, which scans it up to the first Return statement or
  nested block, whichever comes first: at a Return \<open>invoke\<close> yields that statement's
  expression; at a nested block it yields what it yields for that block, whatever the
  block holds and whatever follows it; when the list holds neither, it yields the last
  statement. The evaluator's state is left as it is.
\<close>

theorem invoke_first_return_or_block:
  assumes "return st" and "currentFrame st = Some f" and "list_all plain pre"
  shows "invoke (Block sc (pre @ Return e # rest)) st = (Inr e, st)
    \<and> invoke (Block sc (pre @ Block sc' ns # rest')) st = invoke (Block sc' ns) st
    \<and> (pre \<noteq> [] \<longrightarrow> invoke (Block sc pre) st = (Inr (last pre), st))"
  using eval_scan [OF assms(3)]
  by (simp add: invoke_return_mode [OF assms(1,2)])

theorem invoke_first_return_or_block_witness:
  "return (example_state\<lparr>return := True\<rparr>)
   \<and> currentFrame (example_state\<lparr>return := True\<rparr>) = Some (Frame 0)
   \<and> list_all plain [Unit 1 ''px'']
   \<and> invoke (Block True ([Unit 1 ''px''] @ Return (Unit 2 ''px'') # [Null]))
         (example_state\<lparr>return := True\<rparr>)
       = (Inr (Unit 2 ''px''), example_state\<lparr>return := True\<rparr>)
   \<and> invoke (Block True ([Unit 1 ''px''] @ Block False [Return (Unit 3 ''px'')] # [Return Null]))
         (example_state\<lparr>return := True\<rparr>)
       = (Inr (Unit 3 ''px''), example_state\<lparr>return := True\<rparr>)
   \<and> invoke (Block True [Unit 1 ''px'']) (example_state\<lparr>return := True\<rparr>)
       = (Inr (Unit 1 ''px''), example_state\<lparr>return := True\<rparr>)"
proof -
  let ?st = "example_state\<lparr>return := True\<rparr>"
  have r: "return ?st" by simp
  have c: "currentFrame ?st = Some (Frame 0)"
    by (simp add: currentFrame_def example_state_def)
  have p: "list_all plain [Unit 1 ''px'']" by (simp add: plain_def)
  have n: "list_all plain []" by simp
  have i: "invoke (Block False [Return (Unit 3 ''px'')]) ?st = (Inr (Unit 3 ''px''), ?st)"
    using invoke_first_return_or_block [OF r c n, of False "Unit 3 ''px''" "[]"] by simp
  show ?thesis
    using r c p i
      invoke_first_return_or_block [OF r c p, of True "Unit 2 ''px''" "[Null]" False
        "[Return (Unit 3 ''px'')]" "[Return Null]"]
    by simp
qed

text \<open>
  C2 as stated fails: a nested block that holds no Return, followed by a Return statement.
  The scan of the specification finds the Return; \<open>invoke\<close> yields the last statement of
  the nested block. The body of \<open>example_pick\<close> evaluates to such a list: the call
  \<open>pick(1px)\<close> yields \<open>7\<close>, not \<open>1px\<close> (\<open>invoke_after_if\<close>).
\<close>

theorem invoke_nested_block_counterexample:
  "invoke (Block True [Block False [Unit 1 ''px''], Return (Unit 2 ''px'')])
     (example_state\<lparr>return := True\<rparr>)
     = (Inr (Unit 1 ''px''), example_state\<lparr>return := True\<rparr>)
   \<and> spec_eval [Block False [Unit 1 ''px''], Return (Unit 2 ''px'')] = Unit 2 ''px''"
  by (simp add: invoke_def nodesOf_def currentFrame_def example_state_def eval_def spec_eval_def)

lemma invoke_after_if:
  "fst (visit example_host 12
     (Call ''pick'' (Expression False [Expression False [Unit 1 ''px'']]))
     (example_state\<lparr>stack := [\<lparr>scope = [''pick'' \<mapsto> example_pick], block = 0\<rparr>],
                     return := True\<rparr>))
   = Inr (Expression False [Unit 7 []])"
  by code_simp

section \<open>Literal calls\<close>

lemma resolveCall_None:
  assumes "boundFunction st name = None" "user_functions h name = None" "bifs h name = None"
  shows "resolveCall h st name = None"
proof -
  have lf: "lookupFunction h name = None"
    using assms(2,3) by (simp add: lookupFunction_def nativeOf_def)
  show ?thesis
  proof (cases "stack_lookup (stack st) name")
    case None
    then show ?thesis by (simp add: resolveCall_def lookup_def lf)
  next
    case (Some val)
    with assms(1) show ?thesis
      by (cases "unwrap val")
        (auto simp: resolveCall_def lookup_def lf boundFunction_def Let_def
          split: list.splits if_splits)
  qed
qed

text \<open>
  C1. A call whose name is bound to no function on the stack and names neither a
  user-registered host function nor a built-in is handed to \<open>literalCall\<close>: its arguments
  are visited and the result is the call under its own name with the visited arguments
  (\<open>call.args = this.visit(call.args); return call\<close>); an error of that visit is the
  error of the call. Nothing else of the evaluator's state is touched.
\<close>

theorem visitCall_literal:
  assumes "boundFunction st name = None" "user_functions h name = None" "bifs h name = None"
  shows "visit h (Suc n) (Call name args) st = literalCall (visit h n) name args st
    \<and> literalCall (visit h n) name args st =
        (case visit h n args st of
           (Inl e, st') \<Rightarrow> (Inl e, st')
         | (Inr args', st') \<Rightarrow> (Inr (Call name args'), st'))"
  using resolveCall_None [OF assms]
  by (simp add: visitCall_def literalCall_def andThen_def)

theorem visitCall_literal_witness:
  "boundFunction example_state ''calc'' = None
   \<and> user_functions example_host ''calc'' = None \<and> bifs example_host ''calc'' = None
   \<and> visit example_host 4 (Call ''calc'' (Expression False [Expression False [Unit 1 ''px'']]))
        example_state
      = (Inr (Call ''calc'' (Expression False [Expression False [Unit 1 ''px'']])), example_state)"
proof -
  have b: "boundFunction example_state ''calc'' = None"
    by (simp add: boundFunction_def example_state_def Frame_def scope_lookup_def)
  have u: "user_functions example_host ''calc'' = None" by (simp add: example_host_def)
  have f: "bifs example_host ''calc'' = None" by (simp add: example_host_def)
  have v: "visit example_host 3 (Expression False [Expression False [Unit 1 ''px'']]) example_state
      = (Inr (Expression False [Expression False [Unit 1 ''px'']]), example_state)"
    by (simp add: eval_nat_numeral visitExpression_def)
  show ?thesis
    using b u f v visitCall_literal [OF b u f, of 3 "Expression False [Expression False [Unit 1 ''px'']]"]
    by (simp add: eval_nat_numeral)
qed

section \<open>Coercion failures in visitBinOp\<close>

text \<open>
  C6. For an operator that coerces (every operator but \<open>is defined\<close>, \<open>[]\<close>, \<open>in\<close>,
  \<open>||\<close>, \<open>&&\<close> and \<open>is a\<close>, and not the subtraction of a unit from an identifier, which
  returns before), when both operands evaluate and \<open>left.coerce(right)\<close> throws, \<open>visitBinOp\<close>
  returns the boolean false for \<open>==\<close> and \<open>!=\<close> and fails with the error of the coercion
  for every other operator.
\<close>

theorem visitBinOp_coercion_failure:
  assumes "op \<notin> {''is defined'', ''[]'', ''in'', ''||'', ''&&'', ''is a''}"
    and "visit h n bleft (st\<lparr>return := True\<rparr>) = (Inr left, st1)"
    and "visit h n bright st1 = (Inr right, st2)"
    and "left \<noteq> Undefined" "right \<noteq> Undefined"
    and "\<not> (op = ''-'' \<and> nodeName (first left) = ''ident'' \<and> nodeName (first right) = ''unit'')"
    and "coerce h (first left) (first right) = Inl err"
  shows "visit h (Suc n) (BinOp op bleft (Some bright)) st =
           (if op = ''=='' \<or> op = ''!='' then (Inr (Boolean False), st2\<lparr>return := return st\<rparr>)
            else (Inl err, st2\<lparr>return := return st\<rparr>))"
  using assms by (simp add: visitBinOp_def andThen_def Let_def)

theorem visitBinOp_coercion_failure_witness:
  "''=='' \<notin> {''is defined'', ''[]'', ''in'', ''||'', ''&&'', ''is a''}
   \<and> ''+'' \<notin> {''is defined'', ''[]'', ''in'', ''||'', ''&&'', ''is a''}
   \<and> visit example_host 1 (Unit 1 ''px'') (example_state\<lparr>return := True\<rparr>)
       = (Inr (Unit 1 ''px''), example_state\<lparr>return := True\<rparr>)
   \<and> visit example_host 1 (String ''a'') (example_state\<lparr>return := True\<rparr>)
       = (Inr (String ''a''), example_state\<lparr>return := True\<rparr>)
   \<and> coerce example_host (first (Unit 1 ''px'')) (first (String ''a'')) = Inl (Error ''cannot coerce'')
   \<and> visit example_host 2 (BinOp ''=='' (Unit 1 ''px'') (Some (String ''a''))) example_state
       = (Inr (Boolean False), example_state)
   \<and> visit example_host 2 (BinOp ''+'' (Unit 1 ''px'') (Some (String ''a''))) example_state
       = (Inl (Error ''cannot coerce''), example_state)"
proof -
  let ?st = "example_state\<lparr>return := True\<rparr>"
  have o1: "''=='' \<notin> {''is defined'', ''[]'', ''in'', ''||'', ''&&'', ''is a''}" by simp
  have o2: "''+'' \<notin> {''is defined'', ''[]'', ''in'', ''||'', ''&&'', ''is a''}" by simp
  have l: "visit example_host 1 (Unit 1 ''px'') ?st = (Inr (Unit 1 ''px''), ?st)" by simp
  have r: "visit example_host 1 (String ''a'') ?st = (Inr (String ''a''), ?st)" by simp
  have d: "Unit 1 ''px'' \<noteq> Undefined" "String ''a'' \<noteq> Undefined" by simp_all
  have n1: "\<not> (''=='' = ''-'' \<and> nodeName (first (Unit 1 ''px'')) = ''ident''
      \<and> nodeName (first (String ''a'')) = ''unit'')" by simp
  have n2: "\<not> (''+'' = ''-'' \<and> nodeName (first (Unit 1 ''px'')) = ''ident''
      \<and> nodeName (first (String ''a'')) = ''unit'')" by simp
  have c: "coerce example_host (first (Unit 1 ''px'')) (first (String ''a'')) = Inl (Error ''cannot coerce'')"
    by (simp add: example_host_def)
  have s: "?st\<lparr>return := return example_state\<rparr> = example_state"
    by (simp add: example_state_def)
  show ?thesis
    using o1 o2 l r c s
      visitBinOp_coercion_failure [OF o1 l r d n1 c]
      visitBinOp_coercion_failure [OF o2 l r d n2 c]
    by (simp add: eval_nat_numeral)
qed

section \<open>Properties named like a function under way\<close>

text \<open>
  C9. A property whose interpolated name is on \<open>this.calling\<close> is evaluated as a regular
  property: its expression is visited in return mode, it gets the name and the literal
  flag, and no call is made, whatever the name is bound to. \<open>visitCall\<close> pushes the name of
  the call before the body is visited, so this is the case of a property in the body of
  the function of its own name (\<open>property_in_own_body\<close> runs such a call).
\<close>

theorem visitProperty_calling:
  assumes "interpolate (visit h n) segments st = (Inr (name, segs), st1)"
    and "name \<in> set (calling st1)"
  shows "visit h (Suc n) (Property segments expr pliteral pname) st =
           (case visit h n expr (st1\<lparr>return := True\<rparr>) of
              (Inl e, st2) \<Rightarrow> (Inl e, st2)
            | (Inr expr', st2) \<Rightarrow>
                (Inr (Property segs expr' True (Some name)), st2\<lparr>return := return st1\<rparr>))"
  using assms by (simp add: visitProperty_def andThen_def Let_def)


theorem visitProperty_calling_witness:
  "interpolate (visit example_host 2) [Ident ''foo'' Null False] example_in_foo
     = (Inr (''foo'', [Ident ''foo'' Null False]), example_in_foo)
   \<and> ''foo'' \<in> set (calling example_in_foo)
   \<and> isFunction (lookup example_host example_in_foo ''foo'')
   \<and> visit example_host 3
         (Property [Ident ''foo'' Null False] (Expression False [Unit 1 ''px'']) False None)
         example_in_foo
       = (Inr (Property [Ident ''foo'' Null False] (Expression False [Unit 1 ''px'']) True
                 (Some ''foo'')), example_in_foo)"
proof -
  have i: "interpolate (visit example_host 2) [Ident ''foo'' Null False] example_in_foo
     = (Inr (''foo'', [Ident ''foo'' Null False]), example_in_foo)"
    by (simp add: segmentString_def)
  have c: "''foo'' \<in> set (calling example_in_foo)" by (simp add: example_in_foo_def)
  have f: "isFunction (lookup example_host example_in_foo ''foo'')"
    by (simp add: isFunction_def lookup_def example_in_foo_def scope_lookup_def example_foo_def)
  have v: "visit example_host 2 (Expression False [Unit 1 ''px'']) (example_in_foo\<lparr>return := True\<rparr>)
      = (Inr (Expression False [Unit 1 ''px'']), example_in_foo\<lparr>return := True\<rparr>)"
    by (simp add: eval_nat_numeral visitExpression_def)
  have s: "example_in_foo\<lparr>return := True\<rparr>\<lparr>return := return example_in_foo\<rparr> = example_in_foo"
    by (simp add: example_in_foo_def)
  show ?thesis
    using i c f v s visitProperty_calling [OF i c, of "Expression False [Unit 1 ''px'']" False None]
    by (simp add: eval_nat_numeral)
qed

lemma property_in_own_body:
  "fst (visit example_host 9
     (Block True [Ident ''foo'' example_foo False,
                  Call ''foo'' (Expression False [Expression False [Unit 1 ''px'']])])
     example_state)
   = Inr (Block True [example_foo,
       Property [Ident ''foo'' Null False] (Expression False [Expression False [Unit 1 ''px'']])
         True (Some ''foo'')])"
  by code_simp



section \<open>Parameters and arguments\<close>

lemma bindParams_other:
  "x \<notin> identString ` set ps \<Longrightarrow> fst (bindParams ps i args fs sc) x = sc x"
proof (induction ps arbitrary: i sc)
  case Nil
  then show ?case by simp
next
  case (Cons p ps)
  show ?case
  proof (cases p)
    case (Ident name val rest)
    with Cons.prems have nx: "name \<noteq> x" and rest: "x \<notin> identString ` set ps"
      by (auto simp: identString_def)
    show ?thesis
      using Cons.IH [OF rest] nx Ident
      by (auto simp: Let_def split: option.splits)
  qed simp_all
qed

lemma resulting_rest: "resulting as i (Ident name val True) \<noteq> Null"
  by (simp add: resulting_def)

lemma bindParams_step:
  assumes "nodesOf args = Some as"
  shows "bindParams (Ident name val rest # ps) i args fs sc =
          (if resulting as i (Ident name val rest) = Null
           then (sc, Some (Error (''argument '' @ name @ '' required for '' @ fs)))
           else bindParams ps (Suc i) args fs (sc(name \<mapsto> resulting as i (Ident name val rest))))"
  using assms by (auto simp: resulting_def missing_def Let_def)

lemma bindParams_success:
  assumes "nodesOf args = Some as"
  shows "list_all identParam ps \<Longrightarrow> distinct (map identString ps) \<Longrightarrow>
    \<forall>k<length ps. resulting as (i + k) (ps ! k) \<noteq> Null \<Longrightarrow>
    snd (bindParams ps i args fs sc) = None
    \<and> (\<forall>k<length ps. fst (bindParams ps i args fs sc) (identString (ps ! k))
          = Some (resulting as (i + k) (ps ! k)))"
proof (induction ps arbitrary: i sc)
  case Nil
  then show ?case by simp
next
  case (Cons p ps)
  from Cons.prems(1) obtain name val rest where p: "p = Ident name val rest"
    by (cases p) (auto simp: identParam_def)
  let ?v = "resulting as i p"
  from Cons.prems(3) have v: "?v \<noteq> Null" by force
  have tl: "\<forall>k<length ps. resulting as (Suc i + k) (ps ! k) \<noteq> Null"
    using Cons.prems(3) by force
  have step: "bindParams (p # ps) i args fs sc = bindParams ps (Suc i) args fs (sc(name \<mapsto> ?v))"
    using bindParams_step [OF assms, of name val rest ps i fs sc] v by (simp only: p if_False)
  have ih: "snd (bindParams ps (Suc i) args fs (sc(name \<mapsto> ?v))) = None
    \<and> (\<forall>k<length ps. fst (bindParams ps (Suc i) args fs (sc(name \<mapsto> ?v))) (identString (ps ! k))
          = Some (resulting as (Suc i + k) (ps ! k)))"
  proof (rule Cons.IH)
    show "list_all identParam ps" using Cons.prems(1) by simp
    show "distinct (map identString ps)" using Cons.prems(2) by simp
    show "\<forall>k<length ps. resulting as (Suc i + k) (ps ! k) \<noteq> Null" by (rule tl)
  qed
  have nm: "identString p = name" by (simp add: p identString_def)
  have notin: "name \<notin> identString ` set ps" using Cons.prems(2) nm by auto
  have hd: "fst (bindParams ps (Suc i) args fs (sc(name \<mapsto> ?v))) name = Some ?v"
    using bindParams_other [OF notin] by simp
  show ?case
  proof (intro conjI allI impI)
    show "snd (bindParams (p # ps) i args fs sc) = None" unfolding step using ih by blast
  next
    fix k assume "k < length (p # ps)"
    then show "fst (bindParams (p # ps) i args fs sc) (identString ((p # ps) ! k))
        = Some (resulting as (i + k) ((p # ps) ! k))"
    proof (cases k)
      case 0
      then show ?thesis unfolding step using hd nm by simp
    next
      case (Suc k')
      with \<open>k < length (p # ps)\<close> have "k' < length ps" by simp
      with ih have "fst (bindParams ps (Suc i) args fs (sc(name \<mapsto> ?v))) (identString (ps ! k'))
          = Some (resulting as (Suc i + k') (ps ! k'))" by blast
      then show ?thesis unfolding step by (simp add: Suc)
    qed
  qed
qed

lemma bindParams_failure:
  assumes "nodesOf args = Some as"
  shows "list_all identParam ps \<Longrightarrow> k < length ps \<Longrightarrow>
    resulting as (i + k) (ps ! k) = Null \<Longrightarrow>
    \<forall>j<k. resulting as (i + j) (ps ! j) \<noteq> Null \<Longrightarrow>
    snd (bindParams ps i args fs sc)
       = Some (Error (''argument '' @ identString (ps ! k) @ '' required for '' @ fs))"
proof (induction ps arbitrary: i sc k)
  case Nil
  then show ?case by simp
next
  case (Cons p ps)
  from Cons.prems(1) obtain name val rest where p: "p = Ident name val rest"
    by (cases p) (auto simp: identParam_def)
  show ?case
  proof (cases k)
    case 0
    with Cons.prems(3) have "resulting as i p = Null" by simp
    then have "snd (bindParams (p # ps) i args fs sc)
        = Some (Error (''argument '' @ name @ '' required for '' @ fs))"
      using bindParams_step [OF assms, of name val rest ps i fs sc]
      by (simp only: p if_True snd_conv refl)
    then show ?thesis by (simp add: 0 p identString_def)
  next
    case (Suc k')
    with Cons.prems(4) have "resulting as (i + 0) ((p # ps) ! 0) \<noteq> Null" by blast
    then have nn: "resulting as i p \<noteq> Null" by simp
    have step: "bindParams (p # ps) i args fs sc
        = bindParams ps (Suc i) args fs (sc(name \<mapsto> resulting as i p))"
      using bindParams_step [OF assms, of name val rest ps i fs sc] nn by (simp only: p if_False)
    have pl: "list_all identParam ps" using Cons.prems(1) by simp
    have k': "k' < length ps" using Cons.prems(2) Suc by simp
    have r: "resulting as (Suc i + k') (ps ! k') = Null" using Cons.prems(3) Suc by simp
    have b: "\<forall>j<k'. resulting as (Suc i + j) (ps ! j) \<noteq> Null"
    proof (intro allI impI)
      fix j assume "j < k'"
      then have "Suc j < k" using Suc by simp
      with Cons.prems(4) have "resulting as (i + Suc j) ((p # ps) ! Suc j) \<noteq> Null" by blast
      then show "resulting as (Suc i + j) (ps ! j) \<noteq> Null" by simp
    qed
    show ?thesis
      unfolding step using Cons.IH [OF pl k' r b] by (simp add: Suc)
  qed
qed

lemma invokeFunction_frame:
  assumes "currentFrame st = Some cf" "block cf < length (blocks st)"
  shows "invokeFunction v fname ps (Block bsc bns) args st =
    (let sc0 = [''arguments'' \<mapsto> args,
                ''mixin'' \<mapsto> (if return st then Boolean False
                              else String (bname (blocks st ! block cf)))];
         bound = bindParams ps 0 args (functionString fname ps) sc0;
         st3 = st\<lparr>blocks := blocks st @ [\<lparr>bname = ''block'', bnodes = [], bindex = None,
                                          bscope = True, bgen = 0\<rparr>],
                  stack := stack st @ [\<lparr>scope = fst bound, block = length (blocks st)\<rparr>]\<rparr>
     in case snd bound of
          Some e \<Rightarrow> (Inl e, st3)
        | None \<Rightarrow>
            (case v (Block bsc bns) st3 of
               (Inl e, st4) \<Rightarrow> (Inl e, st4)
             | (Inr body', st4) \<Rightarrow> invoke body' (release (length (blocks st)) (pop st4))))"
  using assms
  by (simp add: invokeFunction_def Let_def push_def alloc_def Frame_def clone_def
      cong: option.case_cong prod.case_cong sum.case_cong)

text \<open>
  C5 (as amended). When a user function is invoked, each parameter (an identifier, with a
  name of its own) ends up with a value: a rest parameter with the expression of the
  arguments from its position on, empty when there are none; any other parameter with its
  default when the argument is missing or an empty expression, and with the argument
  otherwise. If none of these values is \<open>Null\<close>, the body is visited in a new frame whose
  scope binds each parameter to its value. If one of them is \<open>Null\<close>, which a rest
  parameter's never is and which is the case of a missing argument without a default, the
  invocation fails with the error \<open>argument x required for f(...)\<close>, which names the
  first such parameter and prints the function with its parameter list.
\<close>

theorem invokeFunction_binds_parameters:
  assumes "nodesOf args = Some as"
    and "list_all identParam ps"
    and "distinct (map identString ps)"
    and "currentFrame st = Some cf" and "block cf < length (blocks st)"
  shows "((\<forall>k<length ps. resulting as k (ps ! k) \<noteq> Null) \<longrightarrow>
            (\<exists>st3 fr. currentFrame st3 = Some fr
               \<and> (\<forall>k<length ps. scope fr (identString (ps ! k)) = Some (resulting as k (ps ! k)))
               \<and> invokeFunction v fname ps (Block bsc bns) args st =
                   (case v (Block bsc bns) st3 of
                      (Inl e, st4) \<Rightarrow> (Inl e, st4)
                    | (Inr body', st4) \<Rightarrow>
                        invoke body' (release (length (blocks st)) (pop st4)))))
       \<and> (\<forall>k<length ps.
            resulting as k (ps ! k) = Null \<and> (\<forall>j<k. resulting as j (ps ! j) \<noteq> Null) \<longrightarrow>
            (\<exists>st'. invokeFunction v fname ps (Block bsc bns) args st =
               (Inl (Error (''argument '' @ identString (ps ! k) @ '' required for ''
                             @ functionString fname ps)), st')))
       \<and> (\<forall>k<length ps. \<forall>name val. ps ! k = Ident name val True \<longrightarrow>
            resulting as k (ps ! k) = Expression False (drop k as))"
proof (intro conjI impI allI)
  let ?sc0 = "[''arguments'' \<mapsto> args,
               ''mixin'' \<mapsto> (if return st then Boolean False
                             else String (bname (blocks st ! block cf)))]"
  let ?fs = "functionString fname ps"
  let ?bound = "bindParams ps 0 args ?fs ?sc0"
  let ?st3 = "st\<lparr>blocks := blocks st @ [\<lparr>bname = ''block'', bnodes = [], bindex = None,
                                         bscope = True, bgen = 0\<rparr>],
                 stack := stack st @ [\<lparr>scope = fst ?bound, block = length (blocks st)\<rparr>]\<rparr>"
  note frame = invokeFunction_frame [OF assms(4,5), of v fname ps bsc bns args]
  {
    assume ok: "\<forall>k<length ps. resulting as k (ps ! k) \<noteq> Null"
    then have ok': "\<forall>k<length ps. resulting as (0 + k) (ps ! k) \<noteq> Null" by simp
    from bindParams_success [OF assms(1,2,3) ok', of ?fs ?sc0]
    have none: "snd ?bound = None"
      and vals: "\<forall>k<length ps. fst ?bound (identString (ps ! k)) = Some (resulting as k (ps ! k))"
      by simp_all
    have "currentFrame ?st3 = Some \<lparr>scope = fst ?bound, block = length (blocks st)\<rparr>"
      by (simp add: currentFrame_def)
    moreover have "\<forall>k<length ps. scope \<lparr>scope = fst ?bound, block = length (blocks st)\<rparr>
        (identString (ps ! k)) = Some (resulting as k (ps ! k))"
      using vals by simp
    moreover have "invokeFunction v fname ps (Block bsc bns) args st =
        (case v (Block bsc bns) ?st3 of
           (Inl e, st4) \<Rightarrow> (Inl e, st4)
         | (Inr body', st4) \<Rightarrow> invoke body' (release (length (blocks st)) (pop st4)))"
      unfolding frame Let_def using none by simp
    ultimately show "\<exists>st3 fr. currentFrame st3 = Some fr
        \<and> (\<forall>k<length ps. scope fr (identString (ps ! k)) = Some (resulting as k (ps ! k)))
        \<and> invokeFunction v fname ps (Block bsc bns) args st =
            (case v (Block bsc bns) st3 of
               (Inl e, st4) \<Rightarrow> (Inl e, st4)
             | (Inr body', st4) \<Rightarrow> invoke body' (release (length (blocks st)) (pop st4)))"
      by blast
  }
  {
    fix k
    assume k: "k < length ps"
      and n: "resulting as k (ps ! k) = Null \<and> (\<forall>j<k. resulting as j (ps ! j) \<noteq> Null)"
    from n have n1: "resulting as (0 + k) (ps ! k) = Null"
      and n2: "\<forall>j<k. resulting as (0 + j) (ps ! j) \<noteq> Null" by simp_all
    from bindParams_failure [OF assms(1,2) k n1 n2, of ?fs ?sc0]
    have "invokeFunction v fname ps (Block bsc bns) args st =
        (Inl (Error (''argument '' @ identString (ps ! k) @ '' required for '' @ ?fs)), ?st3)"
      unfolding frame Let_def by simp
    then show "\<exists>st'. invokeFunction v fname ps (Block bsc bns) args st =
        (Inl (Error (''argument '' @ identString (ps ! k) @ '' required for '' @ ?fs)), st')"
      by blast
  }
  {
    fix k name val
    assume "ps ! k = Ident name val True"
    then show "resulting as k (ps ! k) = Expression False (drop k as)"
      by (simp add: resulting_def)
  }
qed

text \<open>
  The witness is \<open>f(x, y = 1)\<close>: \<open>f(5px)\<close> binds \<open>y\<close> to \<open>1\<close>, \<open>f(5px, 7px)\<close> binds \<open>y\<close> to
  \<open>7px\<close>, and \<open>f()\<close> fails with \<open>argument x required for f(x, y)\<close>; and \<open>g(x, rest...)\<close>:
  \<open>g(5px)\<close> binds \<open>rest\<close> to the empty expression.
\<close>

theorem invokeFunction_binds_parameters_witness:
  "(\<exists>st3 fr. currentFrame st3 = Some fr
      \<and> scope fr ''x'' = Some (Expression False [Unit 5 ''px''])
      \<and> scope fr ''y'' = Some (Expression False [Unit 1 []])
      \<and> invokeFunction (visit example_host 5) ''f'' example_params (Block True [])
            (Expression False [Expression False [Unit 5 ''px'']]) example_state =
          (case visit example_host 5 (Block True []) st3 of
             (Inl e, st4) \<Rightarrow> (Inl e, st4)
           | (Inr body', st4) \<Rightarrow> invoke body' (release (length (blocks example_state)) (pop st4))))
   \<and> (\<exists>st3 fr. currentFrame st3 = Some fr
      \<and> scope fr ''x'' = Some (Expression False [Unit 5 ''px''])
      \<and> scope fr ''y'' = Some (Expression False [Unit 7 ''px''])
      \<and> invokeFunction (visit example_host 5) ''f'' example_params (Block True [])
            (Expression False [Expression False [Unit 5 ''px''], Expression False [Unit 7 ''px'']])
            example_state =
          (case visit example_host 5 (Block True []) st3 of
             (Inl e, st4) \<Rightarrow> (Inl e, st4)
           | (Inr body', st4) \<Rightarrow> invoke body' (release (length (blocks example_state)) (pop st4))))
   \<and> (\<exists>st'. invokeFunction (visit example_host 5) ''f'' example_params (Block True [])
            (Expression False []) example_state
          = (Inl (Error ''argument x required for f(x, y)''), st'))
   \<and> (\<exists>st3 fr. currentFrame st3 = Some fr
      \<and> scope fr ''x'' = Some (Expression False [Unit 5 ''px''])
      \<and> scope fr ''rest'' = Some (Expression False [])
      \<and> invokeFunction (visit example_host 5) ''g'' example_rest_params (Block True [])
            (Expression False [Expression False [Unit 5 ''px'']]) example_state =
          (case visit example_host 5 (Block True []) st3 of
             (Inl e, st4) \<Rightarrow> (Inl e, st4)
           | (Inr body', st4) \<Rightarrow> invoke body' (release (length (blocks example_state)) (pop st4))))"
proof -
  let ?a = "Expression False [Unit 5 ''px'']"
  let ?b = "Expression False [Unit 7 ''px'']"
  have pl: "list_all identParam example_params"
    by (simp add: example_params_def identParam_def)
  have di: "distinct (map identString example_params)"
    by (simp add: example_params_def identString_def)
  have plr: "list_all identParam example_rest_params"
    by (simp add: example_rest_params_def identParam_def)
  have dir: "distinct (map identString example_rest_params)"
    by (simp add: example_rest_params_def identString_def)
  have cf: "currentFrame example_state = Some (Frame 0)"
    by (simp add: currentFrame_def example_state_def)
  have bl: "block (Frame 0) < length (blocks example_state)"
    by (simp add: Frame_def example_state_def)
  have n1: "nodesOf (Expression False [?a]) = Some [?a]" by (simp add: nodesOf_def)
  have n2: "nodesOf (Expression False [?a, ?b]) = Some [?a, ?b]" by (simp add: nodesOf_def)
  have n0: "nodesOf (Expression False []) = Some []" by (simp add: nodesOf_def)
  have r1: "resulting [?a] 0 (example_params ! 0) = ?a"
    "resulting [?a] (Suc 0) (example_params ! Suc 0) = Expression False [Unit 1 []]"
    by (simp_all add: example_params_def resulting_def missing_def isEmpty_def)
  have r2: "resulting [?a, ?b] 0 (example_params ! 0) = ?a"
    "resulting [?a, ?b] (Suc 0) (example_params ! Suc 0) = ?b"
    by (simp_all add: example_params_def resulting_def missing_def isEmpty_def)
  have r0: "resulting [] 0 (example_params ! 0) = Null"
    by (simp add: example_params_def resulting_def missing_def)
  have rr: "resulting [?a] 0 (example_rest_params ! 0) = ?a"
    "resulting [?a] (Suc 0) (example_rest_params ! Suc 0) = Expression False []"
    by (simp_all add: example_rest_params_def resulting_def missing_def isEmpty_def)
  have len: "length example_params = 2" "length example_rest_params = 2"
    by (simp_all add: example_params_def example_rest_params_def)
  have nm: "identString (example_params ! 0) = ''x''" "identString (example_params ! Suc 0) = ''y''"
    "identString (example_rest_params ! 0) = ''x''"
    "identString (example_rest_params ! Suc 0) = ''rest''"
    by (simp_all add: example_params_def example_rest_params_def identString_def)
  have fs: "functionString ''f'' example_params = ''f(x, y)''"
    by (simp add: functionString_def example_params_def identString_def)
  have two: "\<And>P. (\<forall>k<2. P k) \<longleftrightarrow> P (0::nat) \<and> P (Suc 0)"
    by (auto simp: numeral_2_eq_2 less_Suc_eq)
  from invokeFunction_binds_parameters [OF n1 pl di cf bl, of "visit example_host 5" "''f''" True "[]"]
  have c1: "\<exists>st3 fr. currentFrame st3 = Some fr
      \<and> scope fr ''x'' = Some ?a \<and> scope fr ''y'' = Some (Expression False [Unit 1 []])
      \<and> invokeFunction (visit example_host 5) ''f'' example_params (Block True [])
            (Expression False [?a]) example_state =
          (case visit example_host 5 (Block True []) st3 of
             (Inl e, st4) \<Rightarrow> (Inl e, st4)
           | (Inr body', st4) \<Rightarrow> invoke body' (release (length (blocks example_state)) (pop st4)))"
    by (simp add: len two r1 nm)
  from invokeFunction_binds_parameters [OF n2 pl di cf bl, of "visit example_host 5" "''f''" True "[]"]
  have c2: "\<exists>st3 fr. currentFrame st3 = Some fr
      \<and> scope fr ''x'' = Some ?a \<and> scope fr ''y'' = Some ?b
      \<and> invokeFunction (visit example_host 5) ''f'' example_params (Block True [])
            (Expression False [?a, ?b]) example_state =
          (case visit example_host 5 (Block True []) st3 of
             (Inl e, st4) \<Rightarrow> (Inl e, st4)
           | (Inr body', st4) \<Rightarrow> invoke body' (release (length (blocks example_state)) (pop st4)))"
    by (simp add: len two r2 nm)
  from invokeFunction_binds_parameters [OF n0 pl di cf bl, of "visit example_host 5" "''f''" True "[]"]
  have c3: "\<exists>st'. invokeFunction (visit example_host 5) ''f'' example_params (Block True [])
            (Expression False []) example_state
          = (Inl (Error ''argument x required for f(x, y)''), st')"
    by (simp add: len two r0 nm fs)
  from invokeFunction_binds_parameters [OF n1 plr dir cf bl, of "visit example_host 5" "''g''" True "[]"]
  have c4: "\<exists>st3 fr. currentFrame st3 = Some fr
      \<and> scope fr ''x'' = Some ?a \<and> scope fr ''rest'' = Some (Expression False [])
      \<and> invokeFunction (visit example_host 5) ''g'' example_rest_params (Block True [])
            (Expression False [?a]) example_state =
          (case visit example_host 5 (Block True []) st3 of
             (Inl e, st4) \<Rightarrow> (Inl e, st4)
           | (Inr body', st4) \<Rightarrow> invoke body' (release (length (blocks example_state)) (pop st4)))"
    by (simp add: len two rr nm)
  from c1 c2 c3 c4 show ?thesis by blast
qed

text \<open>
  C5 as stated fails for a rest parameter: with no argument left and no default it is
  bound to an empty expression, and the invocation does not fail.
\<close>

theorem bindParams_rest_counterexample:
  "missing [] 0
   \<and> bindParams [Ident ''rest'' Null True] 0 (Expression False []) ''f(rest)'' Map.empty
       = ([''rest'' \<mapsto> Expression False []], None)"
  by (simp add: missing_def nodesOf_def)

section \<open>The recursion guard\<close>

lemma isFunction_resolveCall:
  "isFunction (lookup h st name) \<Longrightarrow> resolveCall h st name = lookup h st name"
  by (cases "lookup h st name")
    (auto simp: isFunction_def resolveCall_def Let_def split: node.splits)

lemma resolveCall_calling [simp]:
  "resolveCall h (st\<lparr>calling := c\<rparr>) name = resolveCall h st name"
  by (simp add: resolveCall_def lookup_def)

text \<open>
  C3 (as amended). The guard counts the entries of \<open>this.calling\<close>. A call of a function
  pushes its name and fails with the RangeError \<open>Maximum call stack size exceeded\<close> when
  it finds 200 entries or more; when it finds fewer the guard lets it pass, and the
  arguments are visited and the function is invoked. A call written as a property pushes
  the name twice, once in \<open>visitProperty\<close> and once in \<open>visitCall\<close>, so it fails from 199
  entries on.
\<close>

theorem visitCall_guard:
  assumes "resolveCall h st name = Some f"
  shows "(200 \<le> length (calling st) \<longrightarrow>
            visit h (Suc n) (Call name args) st =
              (Inl (RangeError ''Maximum call stack size exceeded''),
               st\<lparr>calling := calling st @ [name]\<rparr>))
       \<and> (length (calling st) < 200 \<longrightarrow>
            visit h (Suc n) (Call name args) st =
              andThen (visit h n args (st\<lparr>calling := calling st @ [name], return := True\<rparr>))
                (\<lambda>args' st2.
                   andThen (invokeResolved (visit h n) h f args' (st2\<lparr>return := return st\<rparr>))
                     (\<lambda>ret st3. (Inr ret, st3\<lparr>calling := butlast (calling st3)\<rparr>))))
       \<and> (\<forall>segments segs st0 expr pname.
            interpolate (visit h (Suc n)) segments st0 = (Inr (name, segs), st)
            \<and> isFunction (lookup h st name) \<and> name \<notin> set (calling st)
            \<and> 199 \<le> length (calling st) \<longrightarrow>
            visit h (Suc (Suc n)) (Property segments expr False pname) st0 =
              (Inl (RangeError ''Maximum call stack size exceeded''),
               st\<lparr>calling := calling st @ [name, name]\<rparr>))"
proof (intro conjI impI allI)
  assume "200 \<le> length (calling st)"
  then show "visit h (Suc n) (Call name args) st =
      (Inl (RangeError ''Maximum call stack size exceeded''), st\<lparr>calling := calling st @ [name]\<rparr>)"
    using assms by (simp add: visitCall_def Let_def)
next
  assume "length (calling st) < 200"
  then show "visit h (Suc n) (Call name args) st =
      andThen (visit h n args (st\<lparr>calling := calling st @ [name], return := True\<rparr>))
        (\<lambda>args' st2.
           andThen (invokeResolved (visit h n) h f args' (st2\<lparr>return := return st\<rparr>))
             (\<lambda>ret st3. (Inr ret, st3\<lparr>calling := butlast (calling st3)\<rparr>)))"
    using assms by (simp add: visitCall_def Let_def)
next
  fix segments segs st0 expr pname
  assume a: "interpolate (visit h (Suc n)) segments st0 = (Inr (name, segs), st)
    \<and> isFunction (lookup h st name) \<and> name \<notin> set (calling st) \<and> 199 \<le> length (calling st)"
  then have "visit h (Suc (Suc n)) (Property segments expr False pname) st0 =
      andThen (visit h (Suc n) (Call name expr) (st\<lparr>calling := calling st @ [name]\<rparr>))
        (\<lambda>ret st2. (Inr ret, st2\<lparr>calling := butlast (calling st2)\<rparr>))"
    by (simp add: visitProperty_def Let_def)
  moreover have "visit h (Suc n) (Call name expr) (st\<lparr>calling := calling st @ [name]\<rparr>) =
      (Inl (RangeError ''Maximum call stack size exceeded''),
       st\<lparr>calling := calling st @ [name, name]\<rparr>)"
    using a assms by (simp add: visitCall_def Let_def)
  ultimately show "visit h (Suc (Suc n)) (Property segments expr False pname) st0 =
      (Inl (RangeError ''Maximum call stack size exceeded''),
       st\<lparr>calling := calling st @ [name, name]\<rparr>)"
    by (simp add: andThen_def)
qed

theorem visitCall_guard_witness:
  "resolveCall example_host (example_deep 200) ''foo'' = Some example_foo
   \<and> 200 \<le> length (calling (example_deep 200))
   \<and> visit example_host (Suc 3) (Call ''foo'' (Expression False [])) (example_deep 200)
       = (Inl (RangeError ''Maximum call stack size exceeded''),
          (example_deep 200)\<lparr>calling := calling (example_deep 200) @ [''foo'']\<rparr>)
   \<and> length (calling (example_deep 199)) < 200
   \<and> fst (visit example_host 9
          (Call ''foo'' (Expression False [Expression False [Unit 1 ''px'']])) (example_deep 199))
       = Inr Null"
proof -
  have r: "resolveCall example_host (example_deep 200) ''foo'' = Some example_foo"
    by (simp add: example_deep_def resolveCall_def lookup_def example_in_foo_def
        scope_lookup_def example_foo_def Let_def)
  have g: "200 \<le> length (calling (example_deep 200))"
    by (simp add: example_deep_def)
  have l: "length (calling (example_deep 199)) < 200"
    by (simp add: example_deep_def)
  have c: "fst (visit example_host 9
      (Call ''foo'' (Expression False [Expression False [Unit 1 ''px'']])) (example_deep 199))
      = Inr Null"
    by code_simp
  from visitCall_guard [OF r, of 3 "Expression False []"] g
  have "visit example_host (Suc 3) (Call ''foo'' (Expression False [])) (example_deep 200)
       = (Inl (RangeError ''Maximum call stack size exceeded''),
          (example_deep 200)\<lparr>calling := calling (example_deep 200) @ [''foo'']\<rparr>)"
    by blast
  with r g l c show ?thesis by blast
qed

text \<open>
  C3 as stated fails: with 199 calls under way a call written as a property, the 200th
  call of the nest, triggers the guard.
\<close>

theorem property_call_counterexample:
  "length (calling (example_deep 199)) = 199
   \<and> fst (visit example_host 3
          (Property [Ident ''foo'' Null False] (Expression False [Unit 1 ''px'']) False None)
          (example_deep 199))
       = Inl (RangeError ''Maximum call stack size exceeded'')"
  by (simp add: example_deep_def eval_nat_numeral segmentString_def visitProperty_def
      lookup_def example_in_foo_def scope_lookup_def example_foo_def isFunction_def
      andThen_def visitCall_def resolveCall_def Let_def)

section \<open>The depth of the frame stack\<close>

lemma thrownReturn_simps [simp]:
  "thrownReturn (Thrown (Return x)) = Some (Return x)"
  "thrownReturn (RangeError s) = None"
  "thrownReturn (TypeError s) = None"
  "thrownReturn (Error s) = None"
  "thrownReturn OutOfFuel = None"
  by (simp_all add: thrownReturn_def)

lemma completes_simps [simp]:
  "completes (Inr v)"
  "completes (Inl e) \<longleftrightarrow> thrownReturn e \<noteq> None"
  by (simp_all add: completes_def)

lemma keeps_refl [simp]: "keeps st st"
  by (simp add: keeps_def)

lemma keeps_trans: "keeps a b \<Longrightarrow> keeps b c \<Longrightarrow> keeps a c"
  by (auto simp: keeps_def)

lemma keeps_framed: "framed st \<Longrightarrow> keeps st st' \<Longrightarrow> framed st'"
  unfolding framed_def keeps_def
proof (intro ballI)
  fix f assume a: "\<forall>f\<in>set (stack st). block f < length (blocks st) \<and> bscope (blocks st ! block f)"
    and k: "map block (stack st') = map block (stack st) \<and> length (blocks st) \<le> length (blocks st')
      \<and> (\<forall>i<length (blocks st). bscope (blocks st' ! i) = bscope (blocks st ! i))"
    and f: "f \<in> set (stack st')"
  from f have "block f \<in> set (map block (stack st'))" by simp
  with k have "block f \<in> set (map block (stack st))" by simp
  then obtain g where g: "g \<in> set (stack st)" "block g = block f" by auto
  with a have "block f < length (blocks st) \<and> bscope (blocks st ! block f)" by metis
  with k show "block f < length (blocks st') \<and> bscope (blocks st' ! block f)" by auto
qed

lemma keeps_same: "stack st' = stack st \<Longrightarrow> blocks st' = blocks st \<Longrightarrow> keeps st st'"
  by (simp add: keeps_def)

lemma keeps_fields [simp]:
  "keeps st (st'\<lparr>return := b\<rparr>) = keeps st st'"
  "keeps st (st'\<lparr>calling := c\<rparr>) = keeps st st'"
  "keeps st (st'\<lparr>group := g\<rparr>) = keeps st st'"
  "keeps st (st'\<lparr>rootIndex := ri\<rparr>) = keeps st st'"
  "keeps st (st'\<lparr>importPath := ip\<rparr>) = keeps st st'"
  "keeps (st\<lparr>return := b\<rparr>) st' = keeps st st'"
  "keeps (st\<lparr>calling := c\<rparr>) st' = keeps st st'"
  "keeps (st\<lparr>group := g\<rparr>) st' = keeps st st'"
  "keeps (st\<lparr>rootIndex := ri\<rparr>) st' = keeps st st'"
  "keeps (st\<lparr>importPath := ip\<rparr>) st' = keeps st st'"
  by (simp_all add: keeps_def)

lemma framed_fields [simp]:
  "framed (st\<lparr>return := b\<rparr>) = framed st"
  "framed (st\<lparr>calling := c\<rparr>) = framed st"
  "framed (st\<lparr>group := g\<rparr>) = framed st"
  "framed (st\<lparr>rootIndex := ri\<rparr>) = framed st"
  "framed (st\<lparr>importPath := ip\<rparr>) = framed st"
  by (simp_all add: framed_def)

lemma stack_scope_add: "map block (stack (scope_add d name val st)) = map block (stack st)"
  by (simp add: scope_add_def map_update list_update_same_conv)

lemma blocks_scope_add [simp]: "blocks (scope_add d name val st) = blocks st"
  by (simp add: scope_add_def)

lemma keeps_scope_add [simp]: "keeps st (scope_add d name val st1) = keeps st st1"
  by (simp add: keeps_def stack_scope_add)

lemma keeps_scope_add_left [simp]: "keeps (scope_add d name val st) st' = keeps st st'"
  by (simp add: keeps_def stack_scope_add)

lemma framed_scope_add [simp]: "framed (scope_add d name val st) = framed st"
proof -
  have "block ` set (stack (scope_add d name val st)) = block ` set (stack st)"
    using stack_scope_add [of d name val st] by (metis set_map)
  then show ?thesis unfolding framed_def blocks_scope_add by (metis (no_types, lifting) image_iff)
qed

lemma stack_update_block [simp]: "stack (update_block r f st) = stack st"
  by (simp add: update_block_def)

lemma length_update_block [simp]: "length (blocks (update_block r f st)) = length (blocks st)"
  by (simp add: update_block_def)

lemma bscope_update_block:
  "(\<And>b. bscope (f b) = bscope b) \<Longrightarrow>
   bscope (blocks (update_block r f st) ! i) = bscope (blocks st ! i)"
  by (cases "i < length (blocks st)") (simp_all add: update_block_def nth_list_update)

lemma keeps_update_block:
  "(\<And>b. bscope (f b) = bscope b) \<Longrightarrow> keeps st (update_block r f st1) = keeps st st1"
  by (simp add: keeps_def bscope_update_block)

lemma framed_update_block:
  "(\<And>b. bscope (f b) = bscope b) \<Longrightarrow> framed (update_block r f st) = framed st"
  by (simp add: framed_def bscope_update_block)

lemma keeps_store [simp]: "keeps st (store r i g v st1) = keeps st st1"
  unfolding store_def by (rule keeps_update_block) simp

lemma framed_store [simp]: "framed (store r i g v st) = framed st"
  unfolding store_def by (rule framed_update_block) simp

lemma keeps_mixinInto: "mixinInto ns r st = (None, st') \<Longrightarrow> keeps st st'"
  by (auto simp: mixinInto_def keeps_update_block split: if_splits sum.splits)

lemma mixin_error: "mixin ns dest = Inl e \<Longrightarrow> thrownReturn e = None"
  by (induction ns dest rule: mixin.induct) (auto split: node.splits sum.splits)

lemma mixinInto_error: "mixinInto ns r st = (Some e, st') \<Longrightarrow> thrownReturn e = None"
  by (auto simp: mixinInto_def mixin_error split: if_splits sum.splits)

lemma andThenE:
  assumes "andThen R k = (r, st')"
  obtains e where "R = (Inl e, st')" "r = Inl e"
  | y st1 where "R = (Inr y, st1)" "k y st1 = (r, st')"
  using assms by (auto simp: andThen_def split: prod.splits sum.splits)

lemma soundD:
  "sound v \<Longrightarrow> framed st \<Longrightarrow> v node st = (r, st') \<Longrightarrow> completes r \<Longrightarrow> keeps st st'"
  unfolding sound_def by blast

lemma keeps_invoke:
  assumes "invoke body st = (r, st')" shows "keeps st st'"
  using assms
  by (auto simp: invoke_def Let_def keeps_update_block
      split: option.splits if_splits sum.splits)

lemma keeps_invokeBuiltin:
  assumes "invokeBuiltin f args st = (r, st')" shows "keeps st st'"
  using assms
  by (auto simp: invokeBuiltin_def keeps_invoke split: option.splits if_splits sum.splits)

lemma keeps_alloc [simp]: "keeps st (alloc nm sc ns st)"
  by (simp add: keeps_def alloc_def nth_append)

lemma framed_alloc: "framed st \<Longrightarrow> framed (alloc nm sc ns st)"
  by (rule keeps_framed [OF _ keeps_alloc])

lemma keeps_release:
  "keeps st st2 \<Longrightarrow> keeps st (release (length (blocks st)) st2)"
  by (simp add: keeps_def release_def)

lemma framed_push:
  "framed st \<Longrightarrow> framed (push (f\<lparr>block := length (blocks st)\<rparr>) (alloc nm True ns st))"
  by (auto simp: framed_def push_def alloc_def nth_append)

lemma keeps_pop_release:
  assumes "keeps (push f (alloc nm sc ns st)) st3"
  shows "keeps st (release (length (blocks st)) (pop st3))"
proof -
  from assms have m: "map block (stack st3) = map block (stack st) @ [block f]"
    and l: "Suc (length (blocks st)) \<le> length (blocks st3)"
    and b: "\<forall>i<length (blocks st). bscope (blocks st3 ! i) = bscope (blocks st ! i)"
    by (auto simp: keeps_def push_def alloc_def nth_append)
  from m have "map block (butlast (stack st3)) = map block (stack st)"
    by (simp add: map_butlast)
  with l b show ?thesis by (simp add: keeps_def release_def pop_def)
qed

lemma bindParams_error: "snd (bindParams ps i args fname sc) = Some e \<Longrightarrow> thrownReturn e = None"
proof (induction ps arbitrary: i sc)
  case Nil
  then show ?case by simp
next
  case (Cons p ps)
  then show ?case
    by (cases p) (auto simp: Let_def split: option.splits if_splits)
qed

lemma keeps_visitNodes:
  assumes "sound v"
  shows "framed st \<Longrightarrow> visitNodes v ns st = (r, st') \<Longrightarrow>
    (\<And>e. r = Inl e \<Longrightarrow> thrownReturn e \<noteq> None) \<Longrightarrow> keeps st st'"
proof (induction ns arbitrary: st r st')
  case Nil
  then show ?case by simp
next
  case (Cons n ns)
  obtain r1 st1 where v: "v n st = (r1, st1)" by (cases "v n st")
  show ?case
  proof (cases r1)
    case (Inl e)
    with v Cons.prems show ?thesis
      using soundD [OF assms Cons.prems(1) v] by auto
  next
    case (Inr y)
    with v have k1: "keeps st st1" using soundD [OF assms Cons.prems(1) v] by simp
    then have f1: "framed st1" using Cons.prems(1) keeps_framed by blast
    obtain r2 st2 where n2: "visitNodes v ns st1 = (r2, st2)" by (cases "visitNodes v ns st1")
    have "keeps st1 st2"
    proof (rule Cons.IH [OF f1 n2])
      fix e assume "r2 = Inl e"
      with Cons.prems(2,3) v Inr n2 show "thrownReturn e \<noteq> None" by auto
    qed
    moreover have "st' = st2" using Cons.prems(2) v Inr n2 by (auto split: sum.splits)
    ultimately show ?thesis using k1 keeps_trans by blast
  qed
qed

lemma keeps_andThen:
  assumes "andThen (v n st1) k = (r, st')" and "completes r" and "sound v" and "framed st1"
    and "\<And>y st2. v n st1 = (Inr y, st2) \<Longrightarrow> keeps st1 st2 \<Longrightarrow> framed st2 \<Longrightarrow>
           k y st2 = (r, st') \<Longrightarrow> keeps st2 st'"
  shows "keeps st1 st'"
  using assms(1)
proof (cases rule: andThenE)
  case (1 e)
  with assms(2) show ?thesis using soundD [OF assms(3,4), of n "Inl e" st'] by simp
next
  case (2 y st2)
  then have k: "keeps st1 st2" using soundD [OF assms(3,4), of n "Inr y" st2] by simp
  then have "framed st2" using assms(4) keeps_framed by blast
  with 2 k assms(5) have "keeps st2 st'" by blast
  with k show ?thesis using keeps_trans by blast
qed

lemma keeps_visitGroup:
  assumes "sound v" "framed st" "visitGroup v sels b st = (r, st')" "completes r"
  shows "keeps st st'"
proof (cases "nodeName b = ''block''")
  case False
  with assms(3,4) show ?thesis by (auto simp: visitGroup_def)
next
  case True
  with assms(3) have a: "andThen (v b (st\<lparr>group := Some (length (blocks st))\<rparr>))
      (\<lambda>b' st'. (Inr (Group sels b'), st'\<lparr>group := None\<rparr>)) = (r, st')"
    by (simp add: visitGroup_def)
  have "keeps (st\<lparr>group := Some (length (blocks st))\<rparr>) st'"
    by (rule keeps_andThen [OF a assms(4,1)]) (use assms(2) in auto)
  then show ?thesis by simp
qed

lemma keeps_visitReturn:
  assumes "sound v" "framed st" "visitReturn v e st = (r, st')" "completes r"
  shows "keeps st st'"
  by (rule keeps_andThen [OF assms(3) [unfolded visitReturn_def] assms(4,1,2)]) auto

lemma keeps_visitMedia:
  assumes "sound v" "framed st" "visitMedia v q b st = (r, st')" "completes r"
  shows "keeps st st'"
  by (rule keeps_andThen [OF assms(3) [unfolded visitMedia_def] assms(4,1,2)]) auto

lemma keeps_visitKeyframes:
  assumes "sound v" "framed st" "visitKeyframes v nm fs st = (r, st')" "completes r"
  shows "keeps st st'"
  by (rule keeps_andThen [OF assms(3) [unfolded visitKeyframes_def] assms(4,1,2)])
    (auto split: if_splits)

lemma keeps_visitExpression:
  assumes "sound v" "framed st" "visitExpression v l ns st = (r, st')" "completes r"
  shows "keeps st st'"
proof -
  obtain r1 st1 where n: "visitNodes v ns st = (r1, st1)" by (cases "visitNodes v ns st")
  with assms(3,4) have "st' = st1" and "\<And>e. r1 = Inl e \<Longrightarrow> thrownReturn e \<noteq> None"
    by (auto simp: visitExpression_def split: sum.splits)
  with keeps_visitNodes [OF assms(1,2) n] show ?thesis by blast
qed

lemma keeps_literalCall:
  assumes "sound v" "framed st" "literalCall v name args st = (r, st')" "completes r"
  shows "keeps st st'"
  by (rule keeps_andThen [OF assms(3) [unfolded literalCall_def] assms(4,1,2)]) auto

lemma keeps_visitIdent:
  assumes "sound v" "framed st" "visitIdent v h name val rest st = (r, st')" "completes r"
  shows "keeps st st'"
proof (cases "val = Null")
  case True
  with assms(3) show ?thesis
    using soundD [OF assms(1,2) _ assms(4)]
    by (auto simp: visitIdent_def split: option.splits)
next
  case False
  with assms(3) have a: "andThen (v val (st\<lparr>return := True\<rparr>))
      (\<lambda>v st1. let st2 = st1\<lparr>return := return st\<rparr>
         in if stack st2 = [] then (Inl (TypeError ''scope of undefined''), st2)
            else (Inr v, scope_add (length (stack st2) - 1) name v st2)) = (r, st')"
    by (simp add: visitIdent_def)
  have "keeps (st\<lparr>return := True\<rparr>) st'"
    by (rule keeps_andThen [OF a assms(4,1)]) (use assms(2,4) in \<open>auto simp: Let_def split: if_splits\<close>)
  then show ?thesis by simp
qed

lemma keeps_visitTernary:
  assumes "sound v" "framed st" "visitTernary v h c t f st = (r, st')" "completes r"
  shows "keeps st st'"
  by (rule keeps_andThen [OF assms(3) [unfolded visitTernary_def] assms(4,1,2)])
    (use assms(1,4) soundD in \<open>auto split: if_splits\<close>)

lemma keeps_visitUnaryOp:
  assumes "sound v" "framed st" "visitUnaryOp v h op e st = (r, st')" "completes r"
  shows "keeps st st'"
  by (rule keeps_andThen [OF assms(3) [unfolded visitUnaryOp_def] assms(4,1,2)])
    (use assms(4) in \<open>auto simp: Let_def split: if_splits node.splits\<close>)

lemma keeps_operateAndVisit:
  assumes "sound v" "framed st" "operateAndVisit v h op l r0 st = (r, st')" "completes r"
  shows "keeps st st'"
  using assms(3,4) soundD [OF assms(1,2) _ assms(4)]
  by (auto simp: operateAndVisit_def split: if_splits sum.splits)

lemma keeps_visitBinOp:
  assumes "sound v" "framed st" "visitBinOp v h op bl br st = (r, st')" "completes r"
  shows "keeps st st'"
proof (cases "op = ''is defined''")
  case True
  with assms(3) show ?thesis
    by (auto simp: visitBinOp_def isDefined_def split: node.splits)
next
  case False
  let ?k2 = "\<lambda>left right st2.
     let st3 = st2\<lparr>return := return st\<rparr>
     in if op = ''[]'' \<or> op = ''in'' then operateAndVisit v h op left right st3
        else if left = Undefined \<or> right = Undefined
        then (Inl (TypeError ''first of undefined''), st3)
        else
          (let left1 = first left; right1 = first right
           in if op = ''||'' \<or> op = ''&&'' \<or> op = ''is a''
              then operateAndVisit v h op left1 right1 st3
              else if op = ''-'' \<and> nodeName left1 = ''ident'' \<and> nodeName right1 = ''unit''
              then (Inr (Expression False [left1, negateUnit right1]), st3)
              else
                (case coerce h left1 right1 of
                   Inl err \<Rightarrow>
                     if op = ''=='' \<or> op = ''!='' then (Inr (Boolean False), st3)
                     else (Inl err, st3)
                 | Inr right2 \<Rightarrow> operateAndVisit v h op left1 right2 st3))"
  have last: "keeps st2 st'" if "framed st2" "?k2 left right st2 = (r, st')" for left right st2
  proof -
    let ?st3 = "st2\<lparr>return := return st\<rparr>"
    have f3: "framed ?st3" using that(1) by simp
    note ov = keeps_operateAndVisit [OF assms(1) f3 _ assms(4)]
    have "keeps ?st3 st'"
    proof (cases "op = ''[]'' \<or> op = ''in''")
      case True
      with that(2) have "operateAndVisit v h op left right ?st3 = (r, st')"
        by (simp add: Let_def del: first.simps)
      then show ?thesis by (rule ov)
    next
      case a: False
      show ?thesis
      proof (cases "left = Undefined \<or> right = Undefined")
        case True
        with a that(2) have "r = Inl (TypeError ''first of undefined'')"
          by (simp add: Let_def del: first.simps)
        with assms(4) show ?thesis by simp
      next
        case b: False
        show ?thesis
        proof (cases "op = ''||'' \<or> op = ''&&'' \<or> op = ''is a''")
          case True
          with a b that(2)
          have "operateAndVisit v h op (first left) (first right) ?st3 = (r, st')"
            by (simp add: Let_def del: first.simps)
          then show ?thesis by (rule ov)
        next
          case c: False
          show ?thesis
          proof (cases "op = ''-'' \<and> nodeName (first left) = ''ident''
                          \<and> nodeName (first right) = ''unit''")
            case True
            with a b c that(2) have "st' = ?st3" by (simp add: Let_def del: first.simps)
            then show ?thesis by simp
          next
            case d: False
            show ?thesis
            proof (cases "coerce h (first left) (first right)")
              case (Inl err)
              with a b c d that(2) assms(4) have "st' = ?st3"
                by (auto simp add: Let_def simp del: first.simps split: if_splits)
              then show ?thesis by simp
            next
              case (Inr right2)
              with a b c d that(2)
              have "operateAndVisit v h op (first left) right2 ?st3 = (r, st')"
                by (auto simp add: Let_def simp del: first.simps)
              then show ?thesis by (rule ov)
            qed
          qed
        qed
      qed
    qed
    then show ?thesis by simp
  qed
  from False assms(3) have a: "andThen (v bl (st\<lparr>return := True\<rparr>))
      (\<lambda>left st1. andThen (v (case br of None \<Rightarrow> Undefined | Some rn \<Rightarrow> rn) st1)
         (\<lambda>right st2. ?k2 left right st2)) = (r, st')"
    by (simp add: visitBinOp_def)
  have "keeps (st\<lparr>return := True\<rparr>) st'"
  proof (rule keeps_andThen [OF a assms(4,1)])
    show "framed (st\<lparr>return := True\<rparr>)" using assms(2) by simp
  next
    fix left st1
    assume f1: "framed st1"
      and b: "andThen (v (case br of None \<Rightarrow> Undefined | Some rn \<Rightarrow> rn) st1)
        (\<lambda>right st2. ?k2 left right st2) = (r, st')"
    show "keeps st1 st'"
      by (rule keeps_andThen [OF b assms(4,1) f1]) (rule last)
  qed
  then show ?thesis by simp
qed

lemma keeps_invokeFunction:
  assumes "sound v" "framed st" "invokeFunction v fname ps fblock args st = (r, st')"
    "completes r"
  shows "keeps st st'"
proof -
  from assms(3,4) have u: "fblock \<noteq> Undefined" and b: "nodeName fblock = ''block''"
    by (auto simp: invokeFunction_def split: if_splits)
  then obtain bsc bns where fb: "fblock = Block bsc bns" by (cases fblock) auto
  from assms(3,4) u b obtain cf where cf: "currentFrame st = Some cf" "block cf < length (blocks st)"
    by (auto simp: invokeFunction_def split: if_splits option.splits)
  let ?sc0 = "[''arguments'' \<mapsto> args,
               ''mixin'' \<mapsto> (if return st then Boolean False
                             else String (bname (blocks st ! block cf)))]"
  let ?bound = "bindParams ps 0 args (functionString fname ps) ?sc0"
  let ?f = "\<lparr>scope = fst ?bound, block = length (blocks st)\<rparr>"
  let ?st3 = "push ?f (alloc ''block'' True [] st)"
  have st3: "st\<lparr>blocks := blocks st @ [\<lparr>bname = ''block'', bnodes = [], bindex = None,
                                         bscope = True, bgen = 0\<rparr>],
                 stack := stack st @ [?f]\<rparr> = ?st3"
    by (simp add: push_def alloc_def)
  have f3: "framed ?st3" using framed_push [OF assms(2), of ?f "''block''" "[]"] by simp
  from assms(3) have i: "(case snd ?bound of
          Some e \<Rightarrow> (Inl e, ?st3)
        | None \<Rightarrow>
            (case v (Block bsc bns) ?st3 of
               (Inl e, st4) \<Rightarrow> (Inl e, st4)
             | (Inr body', st4) \<Rightarrow> invoke body' (release (length (blocks st)) (pop st4))))
        = (r, st')"
    unfolding fb invokeFunction_frame [OF cf] Let_def st3 by simp
  show ?thesis
  proof (cases "snd ?bound")
    case (Some e)
    with i assms(4) bindParams_error [of ps 0 args "functionString fname ps" ?sc0 e] show ?thesis by auto
  next
    case None
    obtain r4 st4 where v4: "v (Block bsc bns) ?st3 = (r4, st4)" by (cases "v (Block bsc bns) ?st3")
    show ?thesis
    proof (cases r4)
      case (Inl e)
      with v4 assms(1) have "thrownReturn e = None" unfolding sound_def by blast
      with i None v4 Inl assms(4) show ?thesis by auto
    next
      case (Inr body')
      with v4 have "keeps ?st3 st4" using soundD [OF assms(1) f3 v4] by simp
      then have k: "keeps st (release (length (blocks st)) (pop st4))"
        by (rule keeps_pop_release)
      from i None v4 Inr have "invoke body' (release (length (blocks st)) (pop st4)) = (r, st')"
        by simp
      then have "keeps (release (length (blocks st)) (pop st4)) st'" by (rule keeps_invoke)
      with k show ?thesis using keeps_trans by blast
    qed
  qed
qed

lemma keeps_invokeResolved:
  assumes "sound v" "framed st" "invokeResolved v h f args st = (r, st')" "completes r"
  shows "keeps st st'"
proof (cases f)
  case (Native nm)
  with assms(3,4) show ?thesis
    by (auto simp: invokeResolved_def dest: keeps_invokeBuiltin split: option.splits)
next
  case (Function nm ps b)
  with assms show ?thesis by (auto simp: invokeResolved_def dest: keeps_invokeFunction)
qed (use assms(3) in \<open>auto simp: invokeResolved_def\<close>)

lemma keeps_visitCall:
  assumes "sound v" "framed st" "visitCall v h name args st = (r, st')" "completes r"
  shows "keeps st st'"
proof (cases "resolveCall h st name")
  case None
  with assms show ?thesis by (auto simp: visitCall_def dest: keeps_literalCall)
next
  case (Some f)
  let ?st1 = "st\<lparr>calling := calling st @ [name]\<rparr>"
  from Some assms(3,4) have a: "andThen (v args (?st1\<lparr>return := True\<rparr>))
      (\<lambda>args' st2.
         andThen (invokeResolved v h f args' (st2\<lparr>return := return st\<rparr>))
           (\<lambda>ret st3. (Inr ret, st3\<lparr>calling := butlast (calling st3)\<rparr>))) = (r, st')"
    by (auto simp: visitCall_def Let_def split: if_splits)
  have "keeps (?st1\<lparr>return := True\<rparr>) st'"
  proof (rule keeps_andThen [OF a assms(4,1)])
    show "framed (?st1\<lparr>return := True\<rparr>)" using assms(2) by simp
  next
    fix args' st2
    assume f2: "framed st2"
      and b: "andThen (invokeResolved v h f args' (st2\<lparr>return := return st\<rparr>))
          (\<lambda>ret st3. (Inr ret, st3\<lparr>calling := butlast (calling st3)\<rparr>)) = (r, st')"
    have f2': "framed (st2\<lparr>return := return st\<rparr>)" using f2 by simp
    from b show "keeps st2 st'"
    proof (cases rule: andThenE)
      case (1 e)
      with assms(4) keeps_invokeResolved [OF assms(1) f2' 1(1)] show ?thesis by simp
    next
      case (2 y st3)
      with keeps_invokeResolved [OF assms(1) f2' 2(1)] show ?thesis by auto
    qed
  qed
  then show ?thesis by simp
qed

lemma keeps_interpolate:
  assumes "sound v"
  shows "framed st \<Longrightarrow> interpolate v segs st = (r, st') \<Longrightarrow>
    (\<And>e. r = Inl e \<Longrightarrow> thrownReturn e \<noteq> None) \<Longrightarrow> keeps st st'"
proof (induction segs arbitrary: st r st')
  case Nil
  then show ?case by simp
next
  case (Cons seg segs)
  show ?case
  proof (cases "seg = Undefined")
    case True
    with Cons.prems show ?thesis by auto
  next
    case u: False
    show ?thesis
    proof (cases "nodeName seg = ''expression''")
      case False
      obtain r2 st2 where n2: "interpolate v segs st = (r2, st2)" by (cases "interpolate v segs st")
      have "keeps st st2"
      proof (rule Cons.IH [OF Cons.prems(1) n2])
        fix e assume "r2 = Inl e"
        with Cons.prems(2,3) u False n2 show "thrownReturn e \<noteq> None" by auto
      qed
      moreover have "st' = st2" using Cons.prems(2) u False n2 by (auto split: sum.splits)
      ultimately show ?thesis by simp
    next
      case True
      obtain r1 st1 where v1: "v seg (st\<lparr>return := True\<rparr>) = (r1, st1)"
        by (cases "v seg (st\<lparr>return := True\<rparr>)")
      have f0: "framed (st\<lparr>return := True\<rparr>)" using Cons.prems(1) by simp
      show ?thesis
      proof (cases r1)
        case (Inl e)
        with Cons.prems(2,3) u True v1 soundD [OF assms f0 v1] show ?thesis by auto
      next
        case (Inr y)
        with soundD [OF assms f0 v1] have k1: "keeps st st1" by simp
        then have f1: "framed (st1\<lparr>return := return st\<rparr>)"
          using Cons.prems(1) keeps_framed by simp
        show ?thesis
        proof (cases "y = Undefined")
          case True
          with Cons.prems(2,3) u \<open>nodeName seg = ''expression''\<close> v1 Inr show ?thesis by auto
        next
          case False
          obtain r2 st2 where n2: "interpolate v segs (st1\<lparr>return := return st\<rparr>) = (r2, st2)"
            by (cases "interpolate v segs (st1\<lparr>return := return st\<rparr>)")
          have "keeps (st1\<lparr>return := return st\<rparr>) st2"
          proof (rule Cons.IH [OF f1 n2])
            fix e assume "r2 = Inl e"
            with Cons.prems(2,3) u \<open>nodeName seg = ''expression''\<close> v1 Inr False n2
            show "thrownReturn e \<noteq> None" by auto
          qed
          moreover have "st' = st2"
            using Cons.prems(2) u \<open>nodeName seg = ''expression''\<close> v1 Inr False n2
            by (auto split: sum.splits)
          ultimately have "keeps st1 st'" by simp
          with k1 show ?thesis by (rule keeps_trans)
        qed
      qed
    qed
  qed
qed

lemma keeps_visitProperty:
  assumes "sound v" "framed st" "visitProperty v h segs e lit nm st = (r, st')" "completes r"
  shows "keeps st st'"
proof -
  obtain r1 st1 where i: "interpolate v segs st = (r1, st1)" by (cases "interpolate v segs st")
  show ?thesis
  proof (cases r1)
    case (Inl err)
    with i assms(3,4) keeps_interpolate [OF assms(1,2) i] show ?thesis
      by (auto simp: visitProperty_def)
  next
    case (Inr p)
    obtain name segs' where p: "p = (name, segs')" by (cases p)
    from Inr keeps_interpolate [OF assms(1,2) i] have k1: "keeps st st1" by simp
    then have f1: "framed st1" using assms(2) keeps_framed by blast
    show ?thesis
    proof (cases "isFunction (lookup h st1 name) \<and> name \<notin> set (calling st1) \<and> \<not> lit")
      case True
      with i Inr p assms(3) have a: "andThen (v (Call name e) (st1\<lparr>calling := calling st1 @ [name]\<rparr>))
          (\<lambda>ret st2. (Inr ret, st2\<lparr>calling := butlast (calling st2)\<rparr>)) = (r, st')"
        by (simp add: visitProperty_def Let_def)
      have "keeps (st1\<lparr>calling := calling st1 @ [name]\<rparr>) st'"
        by (rule keeps_andThen [OF a assms(4,1)]) (use f1 in auto)
      with k1 show ?thesis using keeps_trans [of st st1 st'] by simp
    next
      case False
      with i Inr p assms(3) have a: "andThen (v e (st1\<lparr>return := True\<rparr>))
          (\<lambda>expr' st2. (Inr (Property segs' expr' True (Some name)), st2\<lparr>return := return st1\<rparr>))
          = (r, st')"
        by (auto simp: visitProperty_def Let_def)
      have "keeps (st1\<lparr>return := True\<rparr>) st'"
        by (rule keeps_andThen [OF a assms(4,1)]) (use f1 in auto)
      with k1 show ?thesis using keeps_trans [of st st1 st'] by simp
    qed
  qed
qed

lemma keeps_each_loop:
  assumes "sound v"
  shows "framed st \<Longrightarrow> each_loop v val key eb d rb ns i st = (res, st') \<Longrightarrow>
    (\<And>e. res = Some e \<Longrightarrow> thrownReturn e \<noteq> None) \<Longrightarrow> keeps st st'"
proof (induction ns arbitrary: i st res st')
  case Nil
  then show ?case by simp
next
  case (Cons n ns)
  let ?st0 = "scope_add d key (Unit (int i) []) (scope_add d val n st)"
  have f0: "framed ?st0" using Cons.prems(1) by simp
  obtain r1 st1 where v1: "v (clone eb) ?st0 = (r1, st1)" by (cases "v (clone eb) ?st0")
  show ?case
  proof (cases r1)
    case (Inl e)
    with Cons.prems(2,3) v1 soundD [OF assms f0 v1] show ?thesis by auto
  next
    case (Inr body)
    with soundD [OF assms f0 v1] have k1: "keeps st st1" by simp
    show ?thesis
    proof (cases "nodesOf body")
      case None
      with Cons.prems(2,3) v1 Inr show ?thesis by auto
    next
      case (Some bns)
      obtain r2 st2 where m: "mixinInto bns rb st1 = (r2, st2)" by (cases "mixinInto bns rb st1")
      show ?thesis
      proof (cases r2)
        case (Some e)
        with Cons.prems(2,3) v1 Inr \<open>nodesOf body = Some bns\<close> m mixinInto_error [of bns rb st1 e st2]
        show ?thesis by auto
      next
        case None
        with m have k2: "keeps st1 st2" using keeps_mixinInto by blast
        with k1 have k: "keeps st st2" using keeps_trans by blast
        then have f2: "framed st2" using Cons.prems(1) keeps_framed by blast
        from Cons.prems(2) v1 Inr \<open>nodesOf body = Some bns\<close> m None
        have l: "each_loop v val key eb d rb ns (Suc i) st2 = (res, st')" by simp
        have "keeps st2 st'" by (rule Cons.IH [OF f2 l]) (rule Cons.prems(3))
        with k show ?thesis using keeps_trans by blast
      qed
    qed
  qed
qed

lemma keeps_scoped:
  assumes "framed st" "r \<in> block ` set (stack st)"
  shows "keeps st0 (update_block r (\<lambda>b. b\<lparr>bscope := True\<rparr>) st) = keeps st0 st"
proof -
  from assms have "r < length (blocks st)" "bscope (blocks st ! r)"
    by (auto simp: framed_def)
  then have "bscope (blocks (update_block r (\<lambda>b. b\<lparr>bscope := True\<rparr>) st) ! i) = bscope (blocks st ! i)"
    for i by (cases "i = r") (simp_all add: update_block_def)
  then show ?thesis by (simp add: keeps_def)
qed

lemma keeps_visitEach:
  assumes "sound v" "framed st" "visitEach v val key expr eb st = (r, st')" "completes r"
  shows "keeps st st'"
proof -
  let ?k = "\<lambda>v' st1.
             if v' = Undefined then (Inl (TypeError ''nodeName of undefined''), st1)
             else case nodesOf (unwrap v') of
               None \<Rightarrow> (Inl (TypeError ''length of undefined''), st1)
             | Some ns \<Rightarrow>
                 (case currentFrame st1 of
                    None \<Rightarrow> (Inl (TypeError ''scope of undefined''), st1)
                  | Some cf \<Rightarrow>
                      if eb = Undefined
                      then (Inl (TypeError ''cannot set scope of undefined''), st1)
                      else
                        (case each_loop v val (keyName key)
                                (unscoped eb) (length (stack st1) - 1) (block cf) ns 0 st1 of
                           (Some e, st2) \<Rightarrow> (Inl e, st2)
                         | (None, st2) \<Rightarrow>
                             (Inr Null, update_block (block cf) (\<lambda>b. b\<lparr>bscope := True\<rparr>) st2)))"
  from assms(3,4) have a: "andThen (v (unwrap expr) st) ?k = (r, st')"
    by (auto simp: visitEach_def split: if_splits)
  show ?thesis
  proof (rule keeps_andThen [OF a assms(4,1,2)])
    fix y st1
    assume f1: "framed st1" and k: "?k y st1 = (r, st')"
    from k assms(4) obtain ns cf where ns: "nodesOf (unwrap y) = Some ns"
      and cf: "currentFrame st1 = Some cf"
      and l: "(case each_loop v val (keyName key)
                  (unscoped eb) (length (stack st1) - 1) (block cf) ns 0 st1 of
                 (Some e, st2) \<Rightarrow> (Inl e, st2)
               | (None, st2) \<Rightarrow>
                   (Inr Null, update_block (block cf) (\<lambda>b. b\<lparr>bscope := True\<rparr>) st2)) = (r, st')"
      by (auto split: if_splits option.splits)
    obtain res st2 where e: "each_loop v val (keyName key)
        (unscoped eb) (length (stack st1) - 1) (block cf) ns 0 st1 = (res, st2)"
      by (cases "each_loop v val (keyName key)
        (unscoped eb) (length (stack st1) - 1) (block cf) ns 0 st1")
    have k2: "keeps st1 st2"
    proof (rule keeps_each_loop [OF assms(1) f1 e])
      fix err assume "res = Some err"
      with l e assms(4) show "thrownReturn err \<noteq> None" by auto
    qed
    then have f2: "framed st2" using f1 keeps_framed by blast
    from cf have "block cf \<in> block ` set (stack st1)"
      by (auto simp: currentFrame_def split: if_splits)
    then have "block cf \<in> set (map block (stack st1))" by simp
    with k2 have "block cf \<in> set (map block (stack st2))" by (simp add: keeps_def)
    then have m: "block cf \<in> block ` set (stack st2)" by simp
    show "keeps st1 st'"
    proof (cases res)
      case None
      with l e have "st' = update_block (block cf) (\<lambda>b. b\<lparr>bscope := True\<rparr>) st2" by simp
      with k2 keeps_scoped [OF f2 m] show ?thesis by simp
    next
      case (Some err)
      with l e k2 show ?thesis by simp
    qed
  qed
qed

lemma elses_loop_other:
  "e \<noteq> Undefined \<Longrightarrow> nodeName e \<noteq> ''if'' \<Longrightarrow>
   elses_loop v h (e # es) ret st =
     (case v e st of
        (Inl err, st1) \<Rightarrow> (Inl err, st1)
      | (Inr x, st1) \<Rightarrow> elses_loop v h es x st1)"
  by (cases e) simp_all

lemma keeps_elses_loop:
  assumes "sound v"
  shows "framed st \<Longrightarrow> elses_loop v h es ret st = (r, st') \<Longrightarrow> completes r \<Longrightarrow> keeps st st'"
proof (induction es arbitrary: ret st)
  case Nil
  then show ?case by simp
next
  case (Cons e es)
  show ?case
  proof (cases "e = Undefined")
    case True
    with Cons.prems(2,3) show ?thesis by simp
  next
    case u: False
    show ?thesis
    proof (cases "nodeName e = ''if''")
      case True
      then obtain c b es' ng where e: "e = If c b es' ng" by (cases e) simp_all
      obtain r1 st1 where v1: "v c st = (r1, st1)" by (cases "v c st")
      show ?thesis
      proof (cases r1)
        case (Inl err)
        with Cons.prems(2,3) e v1 soundD [OF assms Cons.prems(1) v1] show ?thesis by auto
      next
        case (Inr x)
        with soundD [OF assms Cons.prems(1) v1] have k1: "keeps st st1" by simp
        then have f1: "framed st1" using Cons.prems(1) keeps_framed by blast
        from Cons.prems(2) e v1 Inr
        have c: "(if x = Undefined then (Inl (TypeError ''first of undefined''), st1)
                  else if toBoolean h (first x) then v b st1
                  else elses_loop v h es ret st1) = (r, st')"
          by (simp del: first.simps)
        have "keeps st1 st'"
        proof (cases "x = Undefined")
          case True
          with c Cons.prems(3) show ?thesis by simp
        next
          case x: False
          show ?thesis
          proof (cases "toBoolean h (first x)")
            case True
            with c x have "v b st1 = (r, st')" by (simp del: first.simps)
            then show ?thesis by (rule soundD [OF assms f1 _ Cons.prems(3)])
          next
            case False
            with c x have "elses_loop v h es ret st1 = (r, st')" by (simp del: first.simps)
            then show ?thesis by (rule Cons.IH [OF f1 _ Cons.prems(3)])
          qed
        qed
        with k1 show ?thesis by (rule keeps_trans)
      qed
    next
      case False
      obtain r1 st1 where v1: "v e st = (r1, st1)" by (cases "v e st")
      show ?thesis
      proof (cases r1)
        case (Inl err)
        with Cons.prems(2) [unfolded elses_loop_other [OF u False]] Cons.prems(3) v1
          soundD [OF assms Cons.prems(1) v1]
        show ?thesis by auto
      next
        case (Inr x)
        with soundD [OF assms Cons.prems(1) v1] have k1: "keeps st st1" by simp
        then have f1: "framed st1" using Cons.prems(1) keeps_framed by blast
        from Cons.prems(2) [unfolded elses_loop_other [OF u False]] v1 Inr
        have "elses_loop v h es x st1 = (r, st')" by simp
        then have "keeps st1 st'" by (rule Cons.IH [OF f1 _ Cons.prems(3)])
        with k1 show ?thesis by (rule keeps_trans)
      qed
    qed
  qed
qed

lemma keeps_if_tail:
  assumes "(case (g, ret) of
              (Some gr, Block sc ns) \<Rightarrow>
                if \<not> return st3 then
                  (case mixinInto ns gr st3 of
                     (Some e, st4) \<Rightarrow> (Inl e, st4)
                   | (None, st4) \<Rightarrow> (Inr Null, st4))
                else (Inr ret, st3)
            | _ \<Rightarrow> (Inr (if ret = Undefined then Null else ret), st3)) = (r, st')"
    and "completes r"
  shows "keeps st3 st'"
proof (cases "\<exists>gr sc ns. g = Some gr \<and> ret = Block sc ns \<and> \<not> return st3")
  case True
  then obtain gr sc ns where g: "g = Some gr" "ret = Block sc ns" "\<not> return st3" by blast
  obtain res st4 where m: "mixinInto ns gr st3 = (res, st4)" by (cases "mixinInto ns gr st3")
  show ?thesis
  proof (cases res)
    case None
    with assms(1) g m have "st' = st4" by simp
    with m None show ?thesis using keeps_mixinInto by blast
  next
    case (Some e)
    with assms g m mixinInto_error [of ns gr st3 e st4] show ?thesis by auto
  qed
next
  case False
  with assms(1) have "st' = st3"
    by (cases g; cases ret) (auto split: if_splits)
  then show ?thesis by simp
qed

lemma keeps_visitIf:
  assumes "sound v" "framed st" "visitIf v h cond blk elses negate st = (r, st')" "completes r"
  shows "keeps st st'"
proof -
  have "keeps (st\<lparr>return := True\<rparr>) st'"
  proof (rule keeps_andThen [OF assms(3) [unfolded visitIf_def] assms(4,1)])
    show "framed (st\<lparr>return := True\<rparr>)" using assms(2) by simp
  next
    fix c and st1 :: evaluator
    let ?st2 = "st1\<lparr>return := return st\<rparr>"
    let ?X = "if negate then (if \<not> toBoolean h (first c) then v blk ?st2 else (Inr Undefined, ?st2))
              else if toBoolean h (first c) then v blk ?st2
              else elses_loop v h elses Undefined ?st2"
    let ?K = "\<lambda>ret st3.
               case (group st, ret) of
                 (Some g, Block sc ns) \<Rightarrow>
                   if \<not> return st3 then
                     (case mixinInto ns g st3 of
                        (Some e, st4) \<Rightarrow> (Inl e, st4)
                      | (None, st4) \<Rightarrow> (Inr Null, st4))
                   else (Inr ret, st3)
               | _ \<Rightarrow> (Inr (if ret = Undefined then Null else ret), st3)"
    assume f1: "framed st1"
      and k: "(if c = Undefined then (Inl (TypeError ''first of undefined''), st1)
               else let ok = toBoolean h (first c); st2 = st1\<lparr>return := return st\<rparr>
                    in andThen
                         (if negate then (if \<not> ok then v blk st2 else (Inr Undefined, st2))
                          else if ok then v blk st2
                          else elses_loop v h elses Undefined st2)
                         ?K) = (r, st')"
    have f2: "framed ?st2" using f1 by simp
    have X: "keeps ?st2 stx" if "?X = (rx, stx)" "completes rx" for rx stx
      using that soundD [OF assms(1) f2 _ that(2)] keeps_elses_loop [OF assms(1) f2 _ that(2)]
      by (auto simp del: first.simps split: if_splits)
    have cu: "c \<noteq> Undefined"
    proof
      assume "c = Undefined"
      with k have "r = Inl (TypeError ''first of undefined'')" by simp
      with assms(4) show False by simp
    qed
    from k have a: "andThen ?X ?K = (r, st')"
      unfolding Let_def by (simp only: cu if_False)
    from a have "keeps ?st2 st'"
    proof (cases rule: andThenE)
      case (1 e)
      with assms(4) show ?thesis using X [of "Inl e" st'] by simp
    next
      case (2 y st3)
      then have "keeps ?st2 st3" using X [of "Inr y" st3] by simp
      moreover have "keeps st3 st'" using 2(2) assms(4) by (rule keeps_if_tail)
      ultimately show ?thesis by (rule keeps_trans)
    qed
    then show "keeps st1 st'" by simp
  qed
  then show ?thesis by simp
qed

lemma keeps_visitImport:
  assumes "visitImport h path st = (r, st')" "completes r"
  shows "keeps st st'"
  using assms
  by (auto simp: visitImport_def Let_def keeps_update_block
      split: if_splits option.splits sum.splits prod.splits)

lemma keeps_update_block_left:
  "(\<And>b. bscope (f b) = bscope b) \<Longrightarrow> keeps (update_block r f st) st' = keeps st st'"
  by (simp add: keeps_def bscope_update_block)

lemma keeps_store_left [simp]: "keeps (store r i g v st) st' = keeps st st'"
  unfolding store_def by (rule keeps_update_block_left) simp

lemma keeps_root_loop:
  assumes "sound v"
  shows "framed st \<Longrightarrow> root_loop k v r i st = (res, st') \<Longrightarrow>
    (\<And>e. res = Some e \<Longrightarrow> thrownReturn e \<noteq> None) \<Longrightarrow> keeps st st'"
proof (induction k arbitrary: i st)
  case 0
  then show ?case by simp
next
  case (Suc k)
  show ?case
  proof (cases "r < length (blocks st) \<and> i < length (bnodes (blocks st ! r))")
    case False
    with Suc.prems(2) show ?thesis by auto
  next
    case True
    let ?st1 = "(update_block r (\<lambda>b. b\<lparr>bindex := Some i\<rparr>) st)\<lparr>rootIndex := Some i\<rparr>"
    let ?g = "bgen (blocks ?st1 ! r)"
    have k1: "keeps st ?st1" by (simp add: keeps_update_block)
    then have f1: "framed ?st1" using Suc.prems(1) keeps_framed by blast
    obtain r2 st2 where v2: "v (bnodes (blocks ?st1 ! r) ! i) ?st1 = (r2, st2)"
      by (cases "v (bnodes (blocks ?st1 ! r) ! i) ?st1")
    from Suc.prems(2) True v2
    have c: "(case r2 of Inl e \<Rightarrow> (Some e, st2)
              | Inr y \<Rightarrow> root_loop k v r (Suc i) (store r i ?g y st2)) = (res, st')"
      by (simp add: Let_def split: sum.splits)
    have "keeps ?st1 st'"
    proof (cases r2)
      case (Inl e)
      with c have "res = Some e" "st' = st2" by simp_all
      with Suc.prems(3) Inl soundD [OF assms f1 v2] show ?thesis by simp
    next
      case (Inr y)
      with soundD [OF assms f1 v2] have k2: "keeps ?st1 st2" by simp
      then have f2: "framed (store r i ?g y st2)" using f1 keeps_framed by simp
      from c Inr have "root_loop k v r (Suc i) (store r i ?g y st2) = (res, st')" by simp
      then have "keeps (store r i ?g y st2) st'" by (rule Suc.IH [OF f2 _ Suc.prems(3)])
      then have "keeps st2 st'" by simp
      with k2 show ?thesis by (rule keeps_trans)
    qed
    with k1 show ?thesis by (rule keeps_trans)
  qed
qed

lemma block_loop_error:
  "block_loop k v r i st = (Some e, st') \<Longrightarrow> thrownReturn e = None"
proof (induction k arbitrary: i st)
  case 0
  then show ?case by simp
next
  case (Suc k)
  show ?case
  proof (cases "r < length (blocks st) \<and> i < length (bnodes (blocks st ! r))")
    case False
    with Suc.prems show ?thesis by auto
  next
    case True
    let ?st1 = "update_block r (\<lambda>b. b\<lparr>bindex := Some i\<rparr>) st"
    obtain r2 st2 where v2: "v (bnodes (blocks ?st1 ! r) ! i) ?st1 = (r2, st2)"
      by (cases "v (bnodes (blocks ?st1 ! r) ! i) ?st1")
    show ?thesis
    proof (cases r2)
      case (Inl err)
      with Suc.prems True v2 show ?thesis
        by (auto simp: Let_def split: option.splits)
    next
      case (Inr y)
      with Suc.prems True v2
      have "block_loop k v r (Suc i) (store r i (bgen (blocks ?st1 ! r)) y st2) = (Some e, st')"
        by (simp add: Let_def)
      then show ?thesis by (rule Suc.IH)
    qed
  qed
qed

lemma keeps_block_loop:
  assumes "sound v"
  shows "framed st \<Longrightarrow> block_loop k v r i st = (None, st') \<Longrightarrow> keeps st st'"
proof (induction k arbitrary: i st)
  case 0
  then show ?case by simp
next
  case (Suc k)
  show ?case
  proof (cases "r < length (blocks st) \<and> i < length (bnodes (blocks st ! r))")
    case False
    with Suc.prems(2) show ?thesis by auto
  next
    case True
    let ?st1 = "update_block r (\<lambda>b. b\<lparr>bindex := Some i\<rparr>) st"
    let ?g = "bgen (blocks ?st1 ! r)"
    have k1: "keeps st ?st1" by (simp add: keeps_update_block)
    then have f1: "framed ?st1" using Suc.prems(1) keeps_framed by blast
    obtain r2 st2 where v2: "v (bnodes (blocks ?st1 ! r) ! i) ?st1 = (r2, st2)"
      by (cases "v (bnodes (blocks ?st1 ! r) ! i) ?st1")
    from Suc.prems(2) True v2
    have c: "(case r2 of
                Inl err \<Rightarrow> (case thrownReturn err of
                              Some ret \<Rightarrow> (None, store r i ?g ret st2)
                            | None \<Rightarrow> (Some err, st2))
              | Inr y \<Rightarrow> block_loop k v r (Suc i) (store r i ?g y st2)) = (None, st')"
      by (simp add: Let_def split: sum.splits)
    have "keeps ?st1 st'"
    proof (cases r2)
      case (Inl err)
      with c obtain ret where t: "thrownReturn err = Some ret" and s: "st' = store r i ?g ret st2"
        by (auto split: option.splits)
      from t Inl soundD [OF assms f1 v2] have "keeps ?st1 st2" by simp
      with s show ?thesis by simp
    next
      case (Inr y)
      with soundD [OF assms f1 v2] have k2: "keeps ?st1 st2" by simp
      then have f2: "framed (store r i ?g y st2)" using f1 keeps_framed by simp
      from c Inr have "block_loop k v r (Suc i) (store r i ?g y st2) = (None, st')" by simp
      then have "keeps (store r i ?g y st2) st'" by (rule Suc.IH [OF f2])
      then have "keeps st2 st'" by simp
      with k2 show ?thesis by (rule keeps_trans)
    qed
    with k1 show ?thesis by (rule keeps_trans)
  qed
qed

lemma keeps_visitRoot:
  assumes "sound v" "framed st" "visitRoot v fuel ns st = (r, st')" "completes r"
  shows "keeps st st'"
proof -
  let ?st0 = "alloc ''root'' True ns st"
  have f0: "framed ?st0" using assms(2) by (rule framed_alloc)
  obtain res st1 where l: "root_loop fuel v (length (blocks st)) 0 ?st0 = (res, st1)"
    by (cases "root_loop fuel v (length (blocks st)) 0 ?st0")
  have k: "keeps ?st0 st1"
  proof (rule keeps_root_loop [OF assms(1) f0 l])
    fix e assume "res = Some e"
    with assms(3,4) l show "thrownReturn e \<noteq> None" by (auto simp: visitRoot_def Let_def)
  qed
  have "keeps st ?st0" by simp
  then have k1: "keeps st st1" using k by (rule keeps_trans)
  show ?thesis
  proof (cases res)
    case (Some e)
    with assms(3) l have "st' = st1" by (simp add: visitRoot_def Let_def)
    with k1 show ?thesis by simp
  next
    case None
    with assms(3,4) l have "st' = release (length (blocks st)) st1"
      by (auto simp: visitRoot_def Let_def split: if_splits)
    with k1 show ?thesis by (simp add: keeps_release)
  qed
qed

lemma visitBlock_error:
  "visitBlock v fuel sc ns st = (Inl e, st') \<Longrightarrow> thrownReturn e = None"
  by (auto simp: visitBlock_def Let_def dest: block_loop_error split: prod.splits option.splits if_splits)

lemma visitBlock_loop:
  assumes "sound v" "framed st" "visitBlock v fuel sc ns st = (Inr y, st')"
  shows "\<exists>st3. block_loop fuel v (length (blocks st)) 0
                 (if sc then push (Frame (length (blocks st))) (alloc ''block'' sc ns st)
                  else alloc ''block'' sc ns st) = (None, st3)
            \<and> length (stack st3) = length (stack st) + (if sc then 1 else 0)
            \<and> st' = release (length (blocks st)) (if sc then pop st3 else st3)
            \<and> keeps st st'"
proof -
  let ?r = "length (blocks st)"
  let ?st1 = "alloc ''block'' sc ns st"
  let ?st2 = "if sc then push (Frame ?r) ?st1 else ?st1"
  obtain res st3 where l: "block_loop fuel v ?r 0 ?st2 = (res, st3)"
    by (cases "block_loop fuel v ?r 0 ?st2")
  from assms(3) l have res: "res = None" and inr: "?r < length (blocks st3)"
    and st': "st' = release ?r (if bscope (blocks st3 ! ?r) then pop st3 else st3)"
    by (auto simp: visitBlock_def Let_def split: option.splits if_splits)
  have f2: "framed ?st2"
  proof (cases sc)
    case True
    have "(Frame ?r)\<lparr>block := ?r\<rparr> = Frame ?r" by (simp add: Frame_def)
    with framed_push [OF assms(2), of "Frame ?r" "''block''" ns] True show ?thesis by simp
  next
    case False
    with framed_alloc [OF assms(2)] show ?thesis by simp
  qed
  from l res have k: "keeps ?st2 st3" using keeps_block_loop [OF assms(1) f2] by simp
  have "?r < length (blocks ?st2)" by (simp add: alloc_def push_def)
  with k have "bscope (blocks st3 ! ?r) = bscope (blocks ?st2 ! ?r)" by (simp add: keeps_def)
  also have "\<dots> = sc" by (simp add: alloc_def push_def)
  finally have b: "bscope (blocks st3 ! ?r) = sc" .
  from k have "length (stack st3) = length (stack ?st2)"
    unfolding keeps_def by (metis length_map)
  then have d: "length (stack st3) = length (stack st) + (if sc then 1 else 0)"
    by (simp add: alloc_def push_def)
  have "keeps st st'"
  proof (cases sc)
    case True
    with k have "keeps (push (Frame ?r) (alloc ''block'' sc ns st)) st3" by simp
    then have "keeps st (release ?r (pop st3))" by (rule keeps_pop_release)
    with st' b True show ?thesis by simp
  next
    case False
    with k have "keeps ?st1 st3" by simp
    with keeps_alloc [of st "''block''" sc ns] have "keeps st st3" by (rule keeps_trans)
    then have "keeps st (release ?r st3)" by (rule keeps_release)
    with st' b False show ?thesis by simp
  qed
  with l res d st' b show ?thesis by simp
qed

lemma sound_visit: "sound (visit h n)"
proof (induction n)
  case 0
  show ?case by (simp add: sound_def)
next
  case (Suc n)
  note IH = Suc.IH
  have one: "keeps st st'"
    if f: "framed st" and v: "visit h (Suc n) node st = (r, st')" and c: "completes r"
    for node st r st'
  proof (cases node)
    case (Group sels b)
    with v show ?thesis using keeps_visitGroup [OF IH f _ c] by simp
  next
    case (Return e)
    with v show ?thesis using keeps_visitReturn [OF IH f _ c] by simp
  next
    case (Media q b)
    with v show ?thesis using keeps_visitMedia [OF IH f _ c] by simp
  next
    case (Keyframes nm fs)
    with v show ?thesis using keeps_visitKeyframes [OF IH f _ c] by simp
  next
    case (Each val key e b)
    with v show ?thesis using keeps_visitEach [OF IH f _ c] by simp
  next
    case (Call nm args)
    with v show ?thesis using keeps_visitCall [OF IH f _ c] by simp
  next
    case (Ident nm val rest)
    with v show ?thesis using keeps_visitIdent [OF IH f _ c] by simp
  next
    case (BinOp op l r0)
    with v show ?thesis using keeps_visitBinOp [OF IH f _ c] by simp
  next
    case (UnaryOp op e)
    with v show ?thesis using keeps_visitUnaryOp [OF IH f _ c] by simp
  next
    case (Ternary c0 t e)
    with v show ?thesis using keeps_visitTernary [OF IH f _ c] by simp
  next
    case (Expression l ns)
    with v show ?thesis using keeps_visitExpression [OF IH f _ c] by simp
  next
    case (Property segs e l nm)
    with v show ?thesis using keeps_visitProperty [OF IH f _ c] by simp
  next
    case (Root ns)
    with v show ?thesis using keeps_visitRoot [OF IH f _ c] by simp
  next
    case (Block sc ns)
    with v have b: "visitBlock (visit h n) n sc ns st = (r, st')" by simp
    show ?thesis
    proof (cases r)
      case (Inl e)
      with b c visitBlock_error [of "visit h n" n sc ns st e st'] show ?thesis by simp
    next
      case (Inr y)
      with b visitBlock_loop [OF IH f, of n sc ns y st'] show ?thesis by blast
    qed
  next
    case (If c0 b es ng)
    with v show ?thesis using keeps_visitIf [OF IH f _ c] by simp
  next
    case (Import p)
    with v show ?thesis using keeps_visitImport [OF _ c] by simp
  qed (use v c in auto)
  have two: "thrownReturn e = None" if "visit h (Suc n) (Block sc ns) st = (Inl e, st')"
    for sc ns st e st'
    using that visitBlock_error [of "visit h n" n sc ns st e st'] by simp
  show ?case unfolding sound_def using one two by blast
qed

text \<open>
  C10. \<open>visitBlock\<close> preserves the depth of the frame stack. From a framed state, when
  it completes normally, the loop over the statements ran to its end, or to a Return
  that a statement threw and the loop stored, on a stack with exactly one frame more for
  a block with \<open>scope\<close> set and with none more for another block; that frame is popped
  afterwards and nothing else is, and the stack has the depth, and the frames the
  blocks, it had before. A Return never leaves \<open>visitBlock\<close> as an exception.
\<close>

theorem visitBlock_stack_depth:
  assumes "framed st" and "visitBlock (visit h n) n sc ns st = (r, st')"
  shows "(\<forall>y. r = Inr y \<longrightarrow>
            (\<exists>st3. block_loop n (visit h n) (length (blocks st)) 0
                      (if sc then push (Frame (length (blocks st))) (alloc ''block'' sc ns st)
                       else alloc ''block'' sc ns st) = (None, st3)
                 \<and> length (stack st3) = length (stack st) + (if sc then 1 else 0)
                 \<and> st' = release (length (blocks st)) (if sc then pop st3 else st3))
            \<and> length (stack st') = length (stack st)
            \<and> map block (stack st') = map block (stack st))
       \<and> (\<forall>e. r = Inl e \<longrightarrow> thrownReturn e = None)"
proof (intro conjI allI impI)
  fix y assume r: "r = Inr y"
  from visitBlock_loop [OF sound_visit assms(1) assms(2) [unfolded r]]
  obtain st3 where l: "block_loop n (visit h n) (length (blocks st)) 0
        (if sc then push (Frame (length (blocks st))) (alloc ''block'' sc ns st)
         else alloc ''block'' sc ns st) = (None, st3)"
    and d: "length (stack st3) = length (stack st) + (if sc then 1 else 0)"
    and s: "st' = release (length (blocks st)) (if sc then pop st3 else st3)"
    and k: "keeps st st'" by blast
  from l d s show "\<exists>st3. block_loop n (visit h n) (length (blocks st)) 0
        (if sc then push (Frame (length (blocks st))) (alloc ''block'' sc ns st)
         else alloc ''block'' sc ns st) = (None, st3)
      \<and> length (stack st3) = length (stack st) + (if sc then 1 else 0)
      \<and> st' = release (length (blocks st)) (if sc then pop st3 else st3)" by blast
  from k show m: "map block (stack st') = map block (stack st)" by (simp add: keeps_def)
  then show "length (stack st') = length (stack st)" by (metis length_map)
next
  fix e assume "r = Inl e"
  with assms(2) show "thrownReturn e = None" using visitBlock_error by blast
qed

text \<open>
  The witness is the body \<open>x = 1px\<close>, \<open>return x\<close>, \<open>y = 2px\<close>, once with and once without
  a scope of its own: the Return is caught and stored, and the depth is what it was.
\<close>

theorem visitBlock_stack_depth_witness:
  "framed example_state
   \<and> (\<exists>st'. visitBlock (visit example_host 6) 6 True example_block example_state
              = (Inr (Block True
                       [Expression False [Unit 1 ''px''],
                        Return (Expression False [Expression False [Unit 1 ''px'']]),
                        Ident ''y'' (Expression False [Unit 2 ''px'']) False]), st')
          \<and> length (stack st') = length (stack example_state))
   \<and> (\<exists>st'. visitBlock (visit example_host 6) 6 False example_block example_state
              = (Inr (Block False
                       [Expression False [Unit 1 ''px''],
                        Return (Expression False [Expression False [Unit 1 ''px'']]),
                        Ident ''y'' (Expression False [Unit 2 ''px'']) False]), st')
          \<and> length (stack st') = length (stack example_state))"
proof -
  let ?res = "[Expression False [Unit 1 ''px''],
               Return (Expression False [Expression False [Unit 1 ''px'']]),
               Ident ''y'' (Expression False [Unit 2 ''px'']) False]"
  have fr: "framed example_state"
    by (simp add: framed_def example_state_def Frame_def)
  have c1: "fst (visitBlock (visit example_host 6) 6 True example_block example_state)
      = Inr (Block True ?res)" by code_simp
  have c2: "fst (visitBlock (visit example_host 6) 6 False example_block example_state)
      = Inr (Block False ?res)" by code_simp
  obtain st1 where e1: "visitBlock (visit example_host 6) 6 True example_block example_state
      = (Inr (Block True ?res), st1)"
    using c1 by (cases "visitBlock (visit example_host 6) 6 True example_block example_state") simp
  obtain st2 where e2: "visitBlock (visit example_host 6) 6 False example_block example_state
      = (Inr (Block False ?res), st2)"
    using c2 by (cases "visitBlock (visit example_host 6) 6 False example_block example_state") simp
  from visitBlock_stack_depth [OF fr e1]
  have d1: "length (stack st1) = length (stack example_state)" by simp
  from visitBlock_stack_depth [OF fr e2]
  have d2: "length (stack st2) = length (stack example_state)" by simp
  from fr e1 d1 e2 d2 show ?thesis by blast
qed

section \<open>Literal properties\<close>

lemma size_member: "m \<in> set ns \<Longrightarrow> size m < size (Expression l ns)"
  by (induction ns) auto

lemma visitNodes_fixed:
  "(\<And>m st. m \<in> set ns \<Longrightarrow> v m st = (Inr m, st)) \<Longrightarrow> visitNodes v ns st = (Inr ns, st)"
  by (induction ns arbitrary: st) simp_all

lemma visit_settled: "settled e \<Longrightarrow> size e < n \<Longrightarrow> visit h n e st = (Inr e, st)"
proof (induction n arbitrary: e st)
  case 0
  then show ?case by simp
next
  case (Suc n)
  show ?case
  proof (cases "\<exists>l ns. e = Expression l ns")
    case True
    then obtain l ns where e: "e = Expression l ns" by blast
    have "visit h n m st' = (Inr m, st')" if "m \<in> set ns" for m st'
    proof (rule Suc.IH)
      from that Suc.prems(1) e show "settled m" by simp
      from size_member [OF that, of l] Suc.prems(2) e show "size m < n" by simp
    qed
    then have "visitNodes (visit h n) ns st = (Inr ns, st)" by (rule visitNodes_fixed)
    then show ?thesis by (simp add: e visitExpression_def)
  next
    case False
    with Suc.prems(1) show ?thesis by (cases e) simp_all
  qed
qed


lemma first_other: "nodeName s \<noteq> ''expression'' \<Longrightarrow> first s = s"
  by (cases s) simp_all

lemma return_restored: "st\<lparr>return := True, return := return st\<rparr> = st"
  by simp

lemma interpolate_reduced:
  "(\<forall>s\<in>set segs. s \<noteq> Undefined \<and> (nodeName s = ''expression'' \<longrightarrow> settled s \<and> size s < n))
   \<Longrightarrow> interpolate (visit h n) segs st = (Inr (segmentsName segs, segs), st)"
proof (induction segs arbitrary: st)
  case Nil
  show ?case by (simp add: segmentsName_def)
next
  case (Cons seg segs)
  then have IH: "interpolate (visit h n) segs st' = (Inr (segmentsName segs, segs), st')" for st'
    by simp
  from Cons.prems have u: "seg \<noteq> Undefined" by simp
  show ?case
  proof (cases "nodeName seg = ''expression''")
    case False
    with u IH [of st] show ?thesis
      by (simp add: segmentsName_def first_other del: first.simps)
  next
    case True
    with Cons.prems have "settled seg" "size seg < n" by simp_all
    then have "visit h n seg (st\<lparr>return := True\<rparr>) = (Inr seg, st\<lparr>return := True\<rparr>)"
      by (rule visit_settled)
    with u True IH [of st] show ?thesis
      by (simp add: segmentsName_def del: first.simps)
  qed
qed

lemma size_segment: "s \<in> set segs \<Longrightarrow> size s < size (Property segs e lit nm)"
  by (induction segs) auto

text \<open>
  C8 (as amended). The visit of a property whose literal flag is set never makes a call
  of it, whatever its name is bound to: it spells the name from the segments, visits
  the expression again in return mode and gives the property back with that name, that
  expression and the flag set. On a reduced property, given fuel above its size, the
  visit is the identity, on the property and on the evaluator's state.
\<close>

theorem visitProperty_literal:
  "(visitProperty v h segs e True nm st =
      (case interpolate v segs st of
         (Inl err, st1) \<Rightarrow> (Inl err, st1)
       | (Inr (name, segs'), st1) \<Rightarrow>
           andThen (v e (st1\<lparr>return := True\<rparr>))
             (\<lambda>e' st2. (Inr (Property segs' e' True (Some name)), st2\<lparr>return := return st1\<rparr>))))
   \<and> (reduced segs e lit nm \<and> size (Property segs e lit nm) < n \<longrightarrow>
        visit h n (Property segs e lit nm) st = (Inr (Property segs e lit nm), st))"
proof (intro conjI impI)
  show "visitProperty v h segs e True nm st =
      (case interpolate v segs st of
         (Inl err, st1) \<Rightarrow> (Inl err, st1)
       | (Inr (name, segs'), st1) \<Rightarrow>
           andThen (v e (st1\<lparr>return := True\<rparr>))
             (\<lambda>e' st2. (Inr (Property segs' e' True (Some name)), st2\<lparr>return := return st1\<rparr>)))"
    by (simp add: visitProperty_def Let_def split: prod.splits sum.splits)
next
  assume a: "reduced segs e lit nm \<and> size (Property segs e lit nm) < n"
  then obtain k where n: "n = Suc k" by (cases n) auto
  from a have lit: "lit" and nm: "nm = Some (segmentsName segs)" and se: "settled e"
    and sg: "\<forall>s\<in>set segs. s \<noteq> Undefined \<and> (nodeName s = ''expression'' \<longrightarrow> settled s)"
    by (simp_all add: reduced_def)
  from a n have sz: "size (Property segs e lit nm) < Suc k" by simp
  then have "size e < k" by simp
  with se have e: "visit h k e st' = (Inr e, st')" for st' by (rule visit_settled)
  have "\<forall>s\<in>set segs. s \<noteq> Undefined \<and> (nodeName s = ''expression'' \<longrightarrow> settled s \<and> size s < k)"
  proof
    fix s assume s: "s \<in> set segs"
    from size_segment [OF s, of e lit nm] sz have "size s < k" by simp
    with sg s show "s \<noteq> Undefined \<and> (nodeName s = ''expression'' \<longrightarrow> settled s \<and> size s < k)"
      by blast
  qed
  then have i: "interpolate (visit h k) segs st = (Inr (segmentsName segs, segs), st)"
    by (rule interpolate_reduced)
  show "visit h n (Property segs e lit nm) st = (Inr (Property segs e lit nm), st)"
    by (simp add: n visitProperty_def i e lit nm andThen_def)
qed

text \<open>The witness is the reduced property \<open>w: 5px\<close>.\<close>

theorem visitProperty_literal_witness:
  "(visitProperty (visit example_host 5) example_host [Ident ''w'' Null False]
        (Expression False [Unit 5 ''px'']) True (Some ''w'') example_state =
      (case interpolate (visit example_host 5) [Ident ''w'' Null False] example_state of
         (Inl err, st1) \<Rightarrow> (Inl err, st1)
       | (Inr (name, segs'), st1) \<Rightarrow>
           andThen (visit example_host 5 (Expression False [Unit 5 ''px'']) (st1\<lparr>return := True\<rparr>))
             (\<lambda>e' st2. (Inr (Property segs' e' True (Some name)), st2\<lparr>return := return st1\<rparr>))))
   \<and> reduced [Ident ''w'' Null False] (Expression False [Unit 5 ''px'']) True (Some ''w'')
   \<and> size (Property [Ident ''w'' Null False] (Expression False [Unit 5 ''px'']) True (Some ''w'')) < 6
   \<and> visit example_host 6
         (Property [Ident ''w'' Null False] (Expression False [Unit 5 ''px'']) True (Some ''w''))
         example_state
       = (Inr (Property [Ident ''w'' Null False] (Expression False [Unit 5 ''px'']) True (Some ''w'')),
          example_state)"
proof -
  have r: "reduced [Ident ''w'' Null False] (Expression False [Unit 5 ''px'']) True (Some ''w'')"
    by (simp add: reduced_def segmentsName_def segmentString_def)
  have s: "size (Property [Ident ''w'' Null False] (Expression False [Unit 5 ''px'']) True (Some ''w'')) < 6"
    by simp
  from r s visitProperty_literal [of "visit example_host 5" example_host "[Ident ''w'' Null False]"
      "Expression False [Unit 5 ''px'']" "Some ''w''" example_state True 6]
  show ?thesis by blast
qed

text \<open>
  C8 as stated fails for a property whose expression is not settled. The evaluation of
  \<open>w: x\<close> while \<open>x\<close> is unbound leaves the property with its literal flag set and the
  identifier in its expression; the visit of that property once \<open>x\<close> is bound replaces
  the identifier by the value. The evaluator does so itself: the loop \<open>for n in 1 2\<close>
  appends the evaluated properties to the block under way, whose loop visits them again
  after the assignment \<open>x = 5px\<close>.
\<close>

theorem literal_property_counterexample:
  "fst (visit example_host 6
          (Property [Ident ''w'' Null False] (Expression False [Ident ''x'' Null False]) False None)
          example_state) = Inr example_property
   \<and> fst (visit example_host 6 example_property example_bound)
       = Inr (Property [Ident ''w'' Null False]
                (Expression False [Expression False [Unit 5 ''px'']]) True (Some ''w''))
   \<and> fst (visit example_host 9 example_each example_state)
       = Inr (Block True
               [Null, Expression False [Unit 5 ''px''],
                Property [Ident ''w'' Null False]
                  (Expression False [Expression False [Unit 5 ''px'']]) True (Some ''w''),
                Property [Ident ''w'' Null False]
                  (Expression False [Expression False [Unit 5 ''px'']]) True (Some ''w'')])"
  by code_simp

end
